theory Spec2Isabelle
  imports Complex_Main "HOL-Library.Finite_Map" "HOL-Library.AList"
begin

section \<open>Common Python notions\<close>

text \<open>
  The three components verified here are \<^verbatim>\<open>src/ledger/mock_ledger.py\<close> (class MockLedger),
  \<^verbatim>\<open>src/ai/rl_negotiation.py\<close> (class RLNegotiator) and \<^verbatim>\<open>src/ai/bandit_selection.py\<close>
  (classes MultiArmedBandit and ContextualBandit).

  Python's unbounded \<^verbatim>\<open>int\<close> is \<^typ>\<open>int\<close>. Python's \<^verbatim>\<open>float\<close> is idealised as \<^typ>\<open>real\<close>:
  rounding, overflow to infinity and NaN are not modelled, so every statement below about
  rewards, Q-values and price ratios is a statement about exact arithmetic. Exceptions are
  values of \<open>py_error\<close>; a method that mutates its object returns the object after the
  call next to its outcome, also when the outcome is an exception.
\<close>

datatype py_error = KeyError | ZeroDivisionError | ValueError | IndexError

text \<open>\<^verbatim>\<open>int(x)\<close> on a float truncates towards zero.\<close>

definition py_int :: "real \<Rightarrow> int" where
  "py_int x = (if 0 \<le> x then \<lfloor>x\<rfloor> else \<lceil>x\<rceil>)"

text \<open>\<^verbatim>\<open>str(n)\<close> for an integer, as the f-strings of the source format it.\<close>

fun str_nat :: "nat \<Rightarrow> string" where
  "str_nat n =
     (if n < 10 then [''0123456789'' ! n]
      else str_nat (n div 10) @ [''0123456789'' ! (n mod 10)])"

declare str_nat.simps [simp del]

definition str_int :: "int \<Rightarrow> string" where
  "str_int i = (if i < 0 then ''-'' @ str_nat (nat (- i)) else str_nat (nat i))"

section \<open>The ledger (mock_ledger.py)\<close>

text \<open>
  Class Transaction. The constructor reads the clock (\<open>now\<close> is the value of
  \<^verbatim>\<open>time.time()\<close>) and Python's string hash (\<open>h\<close>), which are parameters of the model.
\<close>

record transaction =
  tx_sender :: string
  tx_receiver :: string
  tx_amount :: int
  tx_service :: "string option"
  tx_timestamp :: real
  tx_id :: string

definition Transaction ::
  "(string \<Rightarrow> int) \<Rightarrow> real \<Rightarrow> string \<Rightarrow> string \<Rightarrow> int \<Rightarrow> string option \<Rightarrow> transaction" where
  "Transaction h now sender receiver amount service =
     \<lparr> tx_sender = sender, tx_receiver = receiver, tx_amount = amount, tx_service = service,
       tx_timestamp = now,
       tx_id = ''tx_'' @ str_int (py_int now) @ ''_''
               @ str_int (h (sender @ receiver @ str_int amount) mod 10000) \<rparr>"

text \<open>An entry of \<^verbatim>\<open>locked_funds\<close>: the dict with keys agent, amount, purpose, timestamp.\<close>

record lock =
  lk_agent :: string
  lk_amount :: int
  lk_purpose :: string
  lk_timestamp :: real

text \<open>Class MockLedger: two dicts and the append-only history.\<close>

record ledger =
  accounts :: "(string, int) fmap"
  transaction_history :: "transaction list"
  locked_funds :: "(string, lock) fmap"

definition MockLedger :: ledger where
  "MockLedger = \<lparr> accounts = fmempty, transaction_history = [], locked_funds = fmempty \<rparr>"

text \<open>\<^verbatim>\<open>self.accounts.get(agent_name, 0)\<close>\<close>

definition get_balance :: "ledger \<Rightarrow> string \<Rightarrow> int" where
  "get_balance s agent_name =
     (case fmlookup (accounts s) agent_name of None \<Rightarrow> 0 | Some b \<Rightarrow> b)"

definition create_account :: "ledger \<Rightarrow> string \<Rightarrow> int \<Rightarrow> ledger" where
  "create_account s agent_name initial_balance =
     s\<lparr>accounts := fmupd agent_name initial_balance (accounts s)\<rparr>"

text \<open>
  \<^verbatim>\<open>transfer\<close>: the guard reads the sender with \<^verbatim>\<open>.get(sender, 0)\<close>, the debit
  \<^verbatim>\<open>self.accounts[sender] -= amount\<close> reads it with a subscript, which raises KeyError
  for a sender without an account before anything is written.
\<close>

definition transfer ::
  "(string \<Rightarrow> int) \<Rightarrow> real \<Rightarrow> ledger \<Rightarrow> string \<Rightarrow> string \<Rightarrow> int \<Rightarrow> string option
     \<Rightarrow> (py_error + bool) \<times> ledger" where
  "transfer h now s sender receiver amount service =
     (if get_balance s sender \<ge> amount then
        (case fmlookup (accounts s) sender of
           None \<Rightarrow> (Inl KeyError, s)
         | Some b \<Rightarrow>
             let s1 = s\<lparr>accounts := fmupd sender (b - amount) (accounts s)\<rparr>;
                 s2 = s1\<lparr>accounts := fmupd receiver (get_balance s1 receiver + amount) (accounts s1)\<rparr>;
                 tx = Transaction h now sender receiver amount service
             in (Inr True, s2\<lparr>transaction_history := transaction_history s2 @ [tx]\<rparr>))
      else (Inr False, s))"

text \<open>
  \<^verbatim>\<open>lock_funds\<close> reads the clock twice: \<open>t_id\<close> for the lock id, \<open>t_stamp\<close> for the
  stored timestamp. The result \<open>None\<close> is Python's \<^verbatim>\<open>None\<close>.
\<close>

definition lock_id_of :: "(string \<Rightarrow> int) \<Rightarrow> real \<Rightarrow> string \<Rightarrow> string" where
  "lock_id_of h t_id purpose =
     ''lock_'' @ str_int (py_int t_id) @ ''_'' @ str_int (h purpose mod 10000)"

definition lock_funds ::
  "(string \<Rightarrow> int) \<Rightarrow> real \<Rightarrow> real \<Rightarrow> ledger \<Rightarrow> string \<Rightarrow> int \<Rightarrow> string
     \<Rightarrow> (py_error + string option) \<times> ledger" where
  "lock_funds h t_id t_stamp s agent_name amount purpose =
     (if get_balance s agent_name \<ge> amount then
        (case fmlookup (accounts s) agent_name of
           None \<Rightarrow> (Inl KeyError, s)
         | Some b \<Rightarrow>
             let s1 = s\<lparr>accounts := fmupd agent_name (b - amount) (accounts s)\<rparr>;
                 lock_id = lock_id_of h t_id purpose;
                 entry = \<lparr> lk_agent = agent_name, lk_amount = amount, lk_purpose = purpose,
                           lk_timestamp = t_stamp \<rparr>
             in (Inr (Some lock_id), s1\<lparr>locked_funds := fmupd lock_id entry (locked_funds s1)\<rparr>))
      else (Inr None, s))"

definition release_funds :: "ledger \<Rightarrow> string \<Rightarrow> string \<Rightarrow> (py_error + bool) \<times> ledger" where
  "release_funds s lock_id to_agent =
     (case fmlookup (locked_funds s) lock_id of
        Some locked \<Rightarrow>
          let s1 = s\<lparr>locked_funds := fmdrop lock_id (locked_funds s)\<rparr>
          in (Inr True,
              s1\<lparr>accounts := fmupd to_agent (get_balance s1 to_agent + lk_amount locked) (accounts s1)\<rparr>)
      | None \<Rightarrow> (Inr False, s))"

text \<open>
  \<^verbatim>\<open>return_locked_funds\<close> pops the lock first; the credit
  \<^verbatim>\<open>self.accounts[locked['agent']] += ...\<close> raises KeyError when the owner has no account,
  and the lock is gone by then.
\<close>

definition return_locked_funds :: "ledger \<Rightarrow> string \<Rightarrow> (py_error + bool) \<times> ledger" where
  "return_locked_funds s lock_id =
     (case fmlookup (locked_funds s) lock_id of
        Some locked \<Rightarrow>
          let s1 = s\<lparr>locked_funds := fmdrop lock_id (locked_funds s)\<rparr>
          in (case fmlookup (accounts s1) (lk_agent locked) of
                None \<Rightarrow> (Inl KeyError, s1)
              | Some b \<Rightarrow>
                  (Inr True, s1\<lparr>accounts := fmupd (lk_agent locked) (b + lk_amount locked) (accounts s1)\<rparr>))
      | None \<Rightarrow> (Inr False, s))"

text \<open>The \<^verbatim>\<open>total_supply\<close> entry of \<^verbatim>\<open>get_ledger_stats\<close>.\<close>

definition sum_values :: "(string, int) fmap \<Rightarrow> int" where
  "sum_values m = (\<Sum>k\<in>fmdom' m. the (fmlookup m k))"

definition sum_locked :: "(string, lock) fmap \<Rightarrow> int" where
  "sum_locked m = (\<Sum>k\<in>fmdom' m. lk_amount (the (fmlookup m k)))"

definition total_supply :: "ledger \<Rightarrow> int" where
  "total_supply s = sum_values (accounts s) + sum_locked (locked_funds s)"

text \<open>
  A call of one of the five mutators, with the clock readings it makes. \<open>step\<close> is the
  ledger after the call whatever its outcome (the ledger is a process-wide object, and
  a caller that catches the exception goes on with it); \<open>run\<close> performs a sequence.
\<close>

datatype call =
    Create_account string int
  | Transfer real string string int "string option"
  | Lock_funds real real string int string
  | Release_funds string string
  | Return_locked_funds string

fun step :: "(string \<Rightarrow> int) \<Rightarrow> ledger \<Rightarrow> call \<Rightarrow> ledger" where
  "step h s (Create_account a b) = create_account s a b"
| "step h s (Transfer now a b n sv) = snd (transfer h now s a b n sv)"
| "step h s (Lock_funds t_id t_stamp a n p) = snd (lock_funds h t_id t_stamp s a n p)"
| "step h s (Release_funds l a) = snd (release_funds s l a)"
| "step h s (Return_locked_funds l) = snd (return_locked_funds s l)"

fun run :: "(string \<Rightarrow> int) \<Rightarrow> ledger \<Rightarrow> call list \<Rightarrow> ledger" where
  "run h s [] = s"
| "run h s (c # cs) = run h (step h s c) cs"

subsection \<open>Predicates used to state the ledger's properties\<close>

text \<open>Every active lock belongs to an agent that has an account.\<close>

definition owners_ok :: "ledger \<Rightarrow> bool" where
  "owners_ok s = fmpred (\<lambda>_ e. fmlookup (accounts s) (lk_agent e) \<noteq> None) (locked_funds s)"

text \<open>
  \<open>mints_fresh\<close>: a \<^verbatim>\<open>lock_funds\<close> call that passes its balance guard writes its lock
  under an id that is not active at that moment. \<open>fresh_ids\<close> says so of every call of a
  sequence, each in the state it runs in.
\<close>

fun mints_fresh :: "(string \<Rightarrow> int) \<Rightarrow> ledger \<Rightarrow> call \<Rightarrow> bool" where
  "mints_fresh h s (Lock_funds t_id t_stamp a n p) =
     (if get_balance s a \<ge> n then fmlookup (locked_funds s) (lock_id_of h t_id p) = None
      else True)"
| "mints_fresh h s c = True"

fun fresh_ids :: "(string \<Rightarrow> int) \<Rightarrow> ledger \<Rightarrow> call list \<Rightarrow> bool" where
  "fresh_ids h s [] = True"
| "fresh_ids h s (c # cs) = (mints_fresh h s c \<and> fresh_ids h (step h s c) cs)"

text \<open>
  What the \<^verbatim>\<open>create_account\<close> calls of a sequence add to the supply: each one its
  initial balance minus the balance the account had just before (0 if it had none).
\<close>

fun created_by :: "ledger \<Rightarrow> call \<Rightarrow> int" where
  "created_by s (Create_account a b) = b - get_balance s a"
| "created_by s c = 0"

fun created :: "(string \<Rightarrow> int) \<Rightarrow> ledger \<Rightarrow> call list \<Rightarrow> int" where
  "created h s [] = 0"
| "created h s (c # cs) = created_by s c + created h (step h s c) cs"

text \<open>Balances and escrowed amounts that are not negative; calls whose amount is not negative.\<close>

definition balances_nonneg :: "ledger \<Rightarrow> bool" where
  "balances_nonneg s = fmpred (\<lambda>_ b. 0 \<le> b) (accounts s)"

definition locks_nonneg :: "ledger \<Rightarrow> bool" where
  "locks_nonneg s = fmpred (\<lambda>_ e. 0 \<le> lk_amount e) (locked_funds s)"

fun nonneg_args :: "call \<Rightarrow> bool" where
  "nonneg_args (Create_account a b) = (0 \<le> b)"
| "nonneg_args (Transfer now a b n sv) = (0 \<le> n)"
| "nonneg_args (Lock_funds t_id t_stamp a n p) = (0 \<le> n)"
| "nonneg_args c = True"

text \<open>No \<^verbatim>\<open>lock_funds\<close> call of the sequence generates the lock id \<open>l\<close>.\<close>

fun mints_other :: "(string \<Rightarrow> int) \<Rightarrow> string \<Rightarrow> call \<Rightarrow> bool" where
  "mints_other h l (Lock_funds t_id t_stamp a n p) = (lock_id_of h t_id p \<noteq> l)"
| "mints_other h l c = True"

text \<open>
  The scenario of the specification's section 8, with a hash that is constantly 4242 and
  the clock at 1000.5 s: accounts A and B with 100 each, a transfer of 50, a transfer of 100
  that is refused, a lock of 30 and its return.
\<close>

definition scenario_hash :: "string \<Rightarrow> int" where
  "scenario_hash x = 4242"

definition scenario :: "call list" where
  "scenario =
     [Create_account ''A'' 100, Create_account ''B'' 100,
      Transfer 1000.5 ''A'' ''B'' 50 None, Transfer 1000.5 ''A'' ''B'' 100 None,
      Lock_funds 1000.5 1000.5 ''A'' 30 ''escrow'', Return_locked_funds ''lock_1000_4242'']"

section \<open>The negotiator (rl_negotiation.py)\<close>

text \<open>
  Class RLNegotiator. \<^verbatim>\<open>q_table\<close> is a dict from state strings to dicts from action
  names to floats; an inner dict is an association list in insertion order, the order in
  which \<^verbatim>\<open>max\<close> goes through it. \<^verbatim>\<open>self.actions\<close> is set once by the constructor and
  is the constant \<open>actions\<close>. (\<^verbatim>\<open>negotiation_history\<close> is never read or written by the
  methods below and is left out.)
\<close>

type_synonym q_row = "(string \<times> real) list"

record negotiator =
  q_table :: "(string, q_row) fmap"
  learning_rate :: real
  discount_factor :: real
  epsilon :: real

definition actions :: "string list" where
  "actions = [''accept'', ''reject'', ''counter_low'', ''counter_high'']"

definition RLNegotiator :: "real \<Rightarrow> real \<Rightarrow> real \<Rightarrow> negotiator" where
  "RLNegotiator lr df eps =
     \<lparr> q_table = fmempty, learning_rate = lr, discount_factor = df, epsilon = eps \<rparr>"

text \<open>\<^verbatim>\<open>{action: 0.0 for action in self.actions}\<close>\<close>

definition zero_row :: q_row where
  "zero_row = map (\<lambda>a. (a, 0)) actions"

definition get_state :: "string \<Rightarrow> int \<Rightarrow> int \<Rightarrow> real \<Rightarrow> real \<Rightarrow> string" where
  "get_state service_type offered_price market_price agent_reputation urgency =
     (let price_ratio = real_of_int offered_price / real_of_int (max market_price 1);
          price_category =
            (if price_ratio < 0.8 then ''low'' else if price_ratio < 1.2 then ''fair'' else ''high'');
          reputation_category =
            (if agent_reputation < 3.0 then ''low''
             else if agent_reputation < 4.5 then ''medium'' else ''high'');
          urgency_category =
            (if urgency < 0.3 then ''low'' else if urgency < 0.7 then ''medium'' else ''high'')
      in service_type @ ''_'' @ price_category @ ''_'' @ reputation_category @ ''_''
         @ urgency_category)"

text \<open>
  \<^verbatim>\<open>max(d, key=d.get)\<close> and \<^verbatim>\<open>max(d.values())\<close>: the first entry whose value no later
  entry exceeds; ValueError on an empty dict.
\<close>

fun max_entry :: "string \<times> real \<Rightarrow> q_row \<Rightarrow> string \<times> real" where
  "max_entry best [] = best"
| "max_entry best (kv # rest) = max_entry (if snd kv > snd best then kv else best) rest"

definition max_key :: "q_row \<Rightarrow> py_error + string" where
  "max_key row = (case row of [] \<Rightarrow> Inl ValueError | kv # rest \<Rightarrow> Inr (fst (max_entry kv rest)))"

definition max_value :: "q_row \<Rightarrow> py_error + real" where
  "max_value row = (case row of [] \<Rightarrow> Inl ValueError | kv # rest \<Rightarrow> Inr (snd (max_entry kv rest)))"

text \<open>
  \<^verbatim>\<open>get_action\<close> draws from the random generator: \<open>u\<close> is the value of
  \<^verbatim>\<open>random.random()\<close> and \<open>c\<close> the raw choice behind \<^verbatim>\<open>random.choice\<close>, which returns
  the element at an index below the length of the list.
\<close>

definition random_choice :: "'a list \<Rightarrow> nat \<Rightarrow> py_error + 'a" where
  "random_choice xs c = (if xs = [] then Inl IndexError else Inr (xs ! (c mod length xs)))"

definition get_action ::
  "negotiator \<Rightarrow> string \<Rightarrow> bool \<Rightarrow> real \<times> nat \<Rightarrow> (py_error + string) \<times> negotiator" where
  "get_action n state explore draw =
     (let n1 = (if fmlookup (q_table n) state = None
                then n\<lparr>q_table := fmupd state zero_row (q_table n)\<rparr> else n)
      in if explore \<and> fst draw < epsilon n1 then (random_choice actions (snd draw), n1)
         else (case fmlookup (q_table n1) state of
                 None \<Rightarrow> (Inl KeyError, n1)
               | Some row \<Rightarrow> (max_key row, n1)))"

text \<open>
  \<^verbatim>\<open>update_q_value\<close>. \<^verbatim>\<open>if next_state\<close> is false for \<^verbatim>\<open>None\<close> and for the empty
  string. The subscript \<^verbatim>\<open>self.q_table[state][action]\<close> raises KeyError for an action the
  row does not hold; the rows created before that stay in the table.
\<close>

definition truthy :: "string option \<Rightarrow> bool" where
  "truthy next_state = (case next_state of None \<Rightarrow> False | Some ns \<Rightarrow> ns \<noteq> [])"

definition update_q_value ::
  "negotiator \<Rightarrow> string \<Rightarrow> string \<Rightarrow> real \<Rightarrow> string option \<Rightarrow> (py_error + unit) \<times> negotiator" where
  "update_q_value n state action reward next_state =
     (let n1 = (if fmlookup (q_table n) state = None
                then n\<lparr>q_table := fmupd state zero_row (q_table n)\<rparr> else n);
          n2 = (if truthy next_state \<and> fmlookup (q_table n1) (the next_state) = None
                then n1\<lparr>q_table := fmupd (the next_state) zero_row (q_table n1)\<rparr> else n1)
      in case fmlookup (q_table n2) state of
           None \<Rightarrow> (Inl KeyError, n2)
         | Some row \<Rightarrow>
             (case map_of row action of
                None \<Rightarrow> (Inl KeyError, n2)
              | Some current_q \<Rightarrow>
                  (case (if truthy next_state
                         then (case fmlookup (q_table n2) (the next_state) of
                                 None \<Rightarrow> Inl KeyError
                               | Some next_row \<Rightarrow> max_value next_row)
                         else Inr 0) of
                     Inl e \<Rightarrow> (Inl e, n2)
                   | Inr max_next_q \<Rightarrow>
                       let new_q = current_q + learning_rate n2 *
                                     (reward + discount_factor n2 * max_next_q - current_q)
                       in (Inr (),
                           n2\<lparr>q_table := fmupd state (AList.update action new_q row) (q_table n2)\<rparr>))))"

text \<open>\<^verbatim>\<open>calculate_reward\<close>: the division raises ZeroDivisionError for a market price of 0.\<close>

definition calculate_reward :: "int \<Rightarrow> int \<Rightarrow> bool \<Rightarrow> py_error + real" where
  "calculate_reward final_price market_price deal_made =
     (if \<not> deal_made then Inr (- 1.0)
      else if market_price = 0 then Inl ZeroDivisionError
      else let price_ratio = real_of_int final_price / real_of_int market_price
           in if price_ratio > 1.2 then Inr 1.0
              else if price_ratio > 1.0 then Inr 0.5
              else if price_ratio > 0.8 then Inr 0.0
              else Inr (- 0.5))"

text \<open>
  \<^verbatim>\<open>negotiate\<close>. The \<^verbatim>\<open>for\<close> loop over \<^verbatim>\<open>range(max_rounds)\<close> is \<open>negotiate_loop\<close>, a
  recursion over the list of round numbers still to come. It ends with a \<^verbatim>\<open>return\<close>
  (\<open>Returned\<close>), with an exception (\<open>Raised\<close>), or by running out of rounds with the
  current offer (\<open>Exhausted\<close>). \<open>rnd k\<close> is what the random generator yields in round
  \<open>k\<close>. Besides the negotiator after the call, the model returns the list of decision
  points: the (state, action) pair of every \<^verbatim>\<open>get_action\<close> call that returned, in order.
\<close>

datatype loop_exit = Returned "string \<times> int" | Raised py_error | Exhausted int

definition py_range :: "int \<Rightarrow> nat list" where
  "py_range n = [0..<nat n]"

definition decided ::
  "string \<times> string \<Rightarrow> loop_exit \<times> negotiator \<times> (string \<times> string) list
     \<Rightarrow> loop_exit \<times> negotiator \<times> (string \<times> string) list" where
  "decided d r = (case r of (ex, n, dps) \<Rightarrow> (ex, n, d # dps))"

fun negotiate_loop ::
  "(nat \<Rightarrow> real \<times> nat) \<Rightarrow> string \<Rightarrow> int \<Rightarrow> real \<Rightarrow> int \<Rightarrow> negotiator \<Rightarrow> int \<Rightarrow> nat list
     \<Rightarrow> loop_exit \<times> negotiator \<times> (string \<times> string) list" where
  "negotiate_loop rnd service_type market_price agent_reputation max_rounds n current_offer [] =
     (Exhausted current_offer, n, [])"
| "negotiate_loop rnd service_type market_price agent_reputation max_rounds n current_offer
     (round_num # rounds) =
     (if max_rounds = 0 then (Raised ZeroDivisionError, n, [])
      else
        let state = get_state service_type current_offer market_price agent_reputation
                      (real round_num / real_of_int max_rounds)
        in case get_action n state True (rnd round_num) of
             (Inl e, n1) \<Rightarrow> (Raised e, n1, [])
           | (Inr action, n1) \<Rightarrow>
               decided (state, action)
                (if action = ''accept'' then
                   (case calculate_reward current_offer market_price True of
                      Inl e \<Rightarrow> (Raised e, n1, [])
                    | Inr reward \<Rightarrow>
                        (case update_q_value n1 state action reward None of
                           (Inl e, n2) \<Rightarrow> (Raised e, n2, [])
                         | (Inr u, n2) \<Rightarrow> (Returned (''accept'', current_offer), n2, [])))
                 else if action = ''reject'' then
                   (case calculate_reward current_offer market_price False of
                      Inl e \<Rightarrow> (Raised e, n1, [])
                    | Inr reward \<Rightarrow>
                        (case update_q_value n1 state action reward None of
                           (Inl e, n2) \<Rightarrow> (Raised e, n2, [])
                         | (Inr u, n2) \<Rightarrow> (Returned (''reject'', 0), n2, [])))
                 else if action = ''counter_low'' then
                   (case update_q_value n1 state action (- 0.1) None of
                      (Inl e, n2) \<Rightarrow> (Raised e, n2, [])
                    | (Inr u, n2) \<Rightarrow>
                        negotiate_loop rnd service_type market_price agent_reputation max_rounds
                          n2 (max 1 (py_int (real_of_int current_offer * 0.8))) rounds)
                 else if action = ''counter_high'' then
                   (case update_q_value n1 state action (- 0.1) None of
                      (Inl e, n2) \<Rightarrow> (Raised e, n2, [])
                    | (Inr u, n2) \<Rightarrow>
                        negotiate_loop rnd service_type market_price agent_reputation max_rounds
                          n2 (py_int (real_of_int current_offer * 1.2)) rounds)
                 else
                   negotiate_loop rnd service_type market_price agent_reputation max_rounds
                     n1 current_offer rounds))"

declare negotiate_loop.simps(2) [simp del]

definition negotiate ::
  "(nat \<Rightarrow> real \<times> nat) \<Rightarrow> negotiator \<Rightarrow> string \<Rightarrow> int \<Rightarrow> int \<Rightarrow> real \<Rightarrow> int
     \<Rightarrow> (py_error + string \<times> int) \<times> negotiator \<times> (string \<times> string) list" where
  "negotiate rnd n service_type initial_offer market_price agent_reputation max_rounds =
     (case negotiate_loop rnd service_type market_price agent_reputation max_rounds n
             initial_offer (py_range max_rounds) of
        (Returned r, n1, dps) \<Rightarrow> (Inr r, n1, dps)
      | (Raised e, n1, dps) \<Rightarrow> (Inl e, n1, dps)
      | (Exhausted current_offer, n1, dps) \<Rightarrow>
          (let final_state = get_state service_type current_offer market_price agent_reputation 1.0
           in case calculate_reward current_offer market_price True of
                Inl e \<Rightarrow> (Inl e, n1, dps)
              | Inr reward \<Rightarrow>
                  (case update_q_value n1 final_state ''accept'' reward None of
                     (Inl e, n2) \<Rightarrow> (Inl e, n2, dps)
                   | (Inr u, n2) \<Rightarrow> (Inr (''accept'', current_offer), n2, dps))))"

subsection \<open>Predicates used to state the negotiator's properties\<close>

text \<open>Every row of the table holds exactly the four actions, as the rows the code creates do.\<close>

definition q_ok :: "negotiator \<Rightarrow> bool" where
  "q_ok n = fmpred (\<lambda>_ row. map fst row = actions) (q_table n)"

text \<open>What an action does to the current offer (only the two counter actions change it).\<close>

definition apply_action :: "int \<Rightarrow> string \<Rightarrow> int" where
  "apply_action current_offer action =
     (if action = ''counter_low'' then max 1 (py_int (real_of_int current_offer * 0.8))
      else if action = ''counter_high'' then py_int (real_of_int current_offer * 1.2)
      else current_offer)"

definition is_counter :: "string \<times> string \<Rightarrow> bool" where
  "is_counter d = (snd d = ''counter_low'' \<or> snd d = ''counter_high'')"

text \<open>The Q-value the table holds for a state and an action (0 where it holds none).\<close>

definition q_value :: "negotiator \<Rightarrow> string \<Rightarrow> string \<Rightarrow> real" where
  "q_value n state action =
     (case fmlookup (q_table n) state of
        None \<Rightarrow> 0
      | Some row \<Rightarrow> (case map_of row action of None \<Rightarrow> 0 | Some q \<Rightarrow> q))"

text \<open>
  What holds of the loop when it ends, for an offer \<open>offer\<close> at its start and \<open>k\<close> rounds
  to go: it did not raise; it made at most \<open>k\<close> decisions; a \<^verbatim>\<open>return\<close> follows decisions
  that were all counters but the last, which is the accept (at the offer as the counters
  left it) or the reject (at 0); running out of rounds follows exactly \<open>k\<close> counters.
\<close>

definition loop_post ::
  "int \<Rightarrow> nat \<Rightarrow> loop_exit \<times> negotiator \<times> (string \<times> string) list \<Rightarrow> bool" where
  "loop_post offer k r =
     (case r of (ex, n', dps) \<Rightarrow>
        q_ok n' \<and> length dps \<le> k \<and>
        (case ex of
           Raised e \<Rightarrow> False
         | Returned res \<Rightarrow>
             dps \<noteq> [] \<and> list_all is_counter (butlast dps) \<and>
             (if snd (last dps) = ''accept''
              then res = (''accept'', foldl apply_action offer (map snd dps))
              else snd (last dps) = ''reject'' \<and> res = (''reject'', 0))
         | Exhausted current_offer \<Rightarrow>
             length dps = k \<and> list_all is_counter dps \<and>
             current_offer = foldl apply_action offer (map snd dps)))"

text \<open>
  With a market price of 0 the loop, when it ends, has either raised ZeroDivisionError or
  returned the reject, or has run out of rounds.
\<close>

definition zero_post :: "loop_exit \<times> negotiator \<times> (string \<times> string) list \<Rightarrow> bool" where
  "zero_post r =
     (case r of (ex, n', dps) \<Rightarrow>
        q_ok n' \<and>
        (case ex of
           Raised e \<Rightarrow> e = ZeroDivisionError
         | Returned res \<Rightarrow> res = (''reject'', 0)
         | Exhausted current_offer \<Rightarrow> True))"

text \<open>
  The Q-learning update as the specification words it:
  Q(s,a) + alpha * (r + gamma * max Q(s',.) - Q(s,a)).
\<close>

definition q_learning_update :: "real \<Rightarrow> real \<Rightarrow> real \<Rightarrow> real \<Rightarrow> real \<Rightarrow> real" where
  "q_learning_update alpha gamma q r max_next = q + alpha * (r + gamma * max_next - q)"

text \<open>
  Two concrete negotiators and random sources. \<open>fresh_negotiator\<close> is \<^verbatim>\<open>RLNegotiator()\<close>
  with the constructor's defaults. \<open>primed_negotiator\<close> is the same after
  \<^verbatim>\<open>update_q_value("svc_fair_high_medium", "accept", 1.0)\<close> and
  \<^verbatim>\<open>update_q_value("svc_fair_high_low", "counter_low", 1.0)\<close>. \<open>never_explore\<close> yields
  0.5 for \<^verbatim>\<open>random.random()\<close> (not below epsilon: the greedy action is taken);
  \<open>explore_counter_low\<close> yields 0 (below epsilon) and the index of counter_low.
\<close>

definition fresh_negotiator :: negotiator where
  "fresh_negotiator = RLNegotiator 0.1 0.9 0.1"

definition primed_negotiator :: negotiator where
  "primed_negotiator =
     snd (update_q_value
            (snd (update_q_value fresh_negotiator ''svc_fair_high_medium'' ''accept'' 1.0 None))
            ''svc_fair_high_low'' ''counter_low'' 1.0 None)"

definition never_explore :: "nat \<Rightarrow> real \<times> nat" where
  "never_explore k = (0.5, 0)"

definition explore_counter_low :: "nat \<Rightarrow> real \<times> nat" where
  "explore_counter_low k = (0, 2)"

section \<open>The bandits (bandit_selection.py)\<close>

text \<open>
  Class MultiArmedBandit: the list of agents and one dict per statistic, each created by
  the constructor with one entry per agent.
\<close>

record bandit =
  agents :: "string list"
  rewards :: "(string, real list) fmap"
  selection_count :: "(string, int) fmap"
  cumulative_reward :: "(string, real) fmap"
  confidence_interval :: "(string, real) fmap"
  total_selections :: int

definition MultiArmedBandit :: "string list \<Rightarrow> real \<Rightarrow> bandit" where
  "MultiArmedBandit ags initial_confidence =
     \<lparr> agents = ags,
       rewards = fmap_of_list (map (\<lambda>agent. (agent, [])) ags),
       selection_count = fmap_of_list (map (\<lambda>agent. (agent, 0)) ags),
       cumulative_reward = fmap_of_list (map (\<lambda>agent. (agent, 0)) ags),
       confidence_interval = fmap_of_list (map (\<lambda>agent. (agent, initial_confidence)) ags),
       total_selections = 0 \<rparr>"

text \<open>
  A UCB value is a float or \<^verbatim>\<open>float('inf')\<close>; \<open>score_gt\<close> is Python's \<^verbatim>\<open>></\<close> on them.
\<close>

datatype score = Fin real | PosInf

fun score_gt :: "score \<Rightarrow> score \<Rightarrow> bool" where
  "score_gt (Fin x) (Fin y) = (x > y)"
| "score_gt PosInf (Fin y) = True"
| "score_gt s PosInf = False"

text \<open>
  The body of the loop of \<^verbatim>\<open>select_ucb1\<close> for one agent. The logarithm and the square
  root are the real ones: where numpy yields nan or -inf (a total below 1, a negative
  count) the model does not follow it. The loop runs only when the total is not 0, and no
  state built by the constructor and \<^verbatim>\<open>update_reward\<close> has a total or a count below 0.
\<close>

definition ucb_value :: "bandit \<Rightarrow> real \<Rightarrow> string \<Rightarrow> py_error + score" where
  "ucb_value b c agent =
     (case fmlookup (selection_count b) agent of
        None \<Rightarrow> Inl KeyError
      | Some cnt \<Rightarrow>
          if cnt = 0 then Inr PosInf
          else (case fmlookup (cumulative_reward b) agent of
                  None \<Rightarrow> Inl KeyError
                | Some cum \<Rightarrow>
                    let avg_reward = cum / real_of_int cnt;
                        confidence = c * sqrt (ln (real_of_int (total_selections b))
                                               / real_of_int cnt)
                    in Inr (Fin (avg_reward + confidence))))"

text \<open>
  The dict \<^verbatim>\<open>ucb_values\<close>, as the list of its entries in the order of \<^verbatim>\<open>self.agents\<close>.
  (An agent listed twice is entered twice here, with the same value; the second entry
  never beats the first, so the maximum below is the dict's.)
\<close>

fun ucb_values :: "bandit \<Rightarrow> real \<Rightarrow> string list \<Rightarrow> py_error + (string \<times> score) list" where
  "ucb_values b c [] = Inr []"
| "ucb_values b c (agent # rest) =
     (case ucb_value b c agent of
        Inl e \<Rightarrow> Inl e
      | Inr v \<Rightarrow>
          (case ucb_values b c rest of
             Inl e \<Rightarrow> Inl e
           | Inr vs \<Rightarrow> Inr ((agent, v) # vs)))"

text \<open>\<^verbatim>\<open>max(ucb_values, key=ucb_values.get)\<close>: the first entry that no later entry exceeds.\<close>

fun max_score :: "string \<times> score \<Rightarrow> (string \<times> score) list \<Rightarrow> string \<times> score" where
  "max_score best [] = best"
| "max_score best (kv # rest) = max_score (if score_gt (snd kv) (snd best) then kv else best) rest"

definition select_ucb1 :: "bandit \<Rightarrow> real \<Rightarrow> nat \<Rightarrow> py_error + string" where
  "select_ucb1 b c pick =
     (if total_selections b = 0 then random_choice (agents b) pick
      else (case ucb_values b c (agents b) of
              Inl e \<Rightarrow> Inl e
            | Inr [] \<Rightarrow> Inl ValueError
            | Inr (kv # rest) \<Rightarrow> Inr (fst (max_score kv rest))))"

text \<open>
  \<^verbatim>\<open>update_reward\<close>: four statements, the first three of which subscript a dict with the
  agent and raise KeyError when it holds no entry for it; what the statements before have
  written stays.
\<close>

definition update_reward :: "bandit \<Rightarrow> string \<Rightarrow> real \<Rightarrow> (py_error + unit) \<times> bandit" where
  "update_reward b agent reward =
     (case fmlookup (rewards b) agent of
        None \<Rightarrow> (Inl KeyError, b)
      | Some rs \<Rightarrow>
          let b1 = b\<lparr>rewards := fmupd agent (rs @ [reward]) (rewards b)\<rparr>
          in (case fmlookup (cumulative_reward b1) agent of
                None \<Rightarrow> (Inl KeyError, b1)
              | Some cum \<Rightarrow>
                  let b2 = b1\<lparr>cumulative_reward := fmupd agent (cum + reward) (cumulative_reward b1)\<rparr>
                  in (case fmlookup (selection_count b2) agent of
                        None \<Rightarrow> (Inl KeyError, b2)
                      | Some cnt \<Rightarrow>
                          let b3 = b2\<lparr>selection_count := fmupd agent (cnt + 1) (selection_count b2)\<rparr>
                          in (Inr (), b3\<lparr>total_selections := total_selections b3 + 1\<rparr>))))"

text \<open>
  Selecting with UCB and rewarding the selected agent, once per element of a list of
  (random pick, reward) pairs; the result is the list of the agents selected.
\<close>

fun ucb_rounds ::
  "bandit \<Rightarrow> real \<Rightarrow> (nat \<times> real) list \<Rightarrow> (py_error + string list) \<times> bandit" where
  "ucb_rounds b c [] = (Inr [], b)"
| "ucb_rounds b c (pr # rest) =
     (case select_ucb1 b c (fst pr) of
        Inl e \<Rightarrow> (Inl e, b)
      | Inr agent \<Rightarrow>
          (case update_reward b agent (snd pr) of
             (Inl e, b1) \<Rightarrow> (Inl e, b1)
           | (Inr u, b1) \<Rightarrow>
               (case ucb_rounds b1 c rest of
                  (Inl e, b2) \<Rightarrow> (Inl e, b2)
                | (Inr selected, b2) \<Rightarrow> (Inr (agent # selected), b2))))"

text \<open>
  Class ContextualBandit. A numpy vector is a list of reals; \<^verbatim>\<open>np.dot\<close> of two vectors
  of different lengths raises ValueError. The constructor draws the initial weights at
  random: \<open>w0 agent i\<close> is the i-th component it draws for an agent. \<open>now\<close> is the clock reading stored in
  the history entry.
\<close>

record history_entry =
  he_agent :: string
  he_context :: "real list"
  he_reward :: real
  he_error :: real
  he_timestamp :: real

record contextual_bandit =
  cb_agents :: "string list"
  context_dim :: nat
  weights :: "(string, real list) fmap"
  history :: "history_entry list"

definition ContextualBandit ::
  "(string \<Rightarrow> nat \<Rightarrow> real) \<Rightarrow> string list \<Rightarrow> nat \<Rightarrow> contextual_bandit" where
  "ContextualBandit w0 ags context_dimensions =
     \<lparr> cb_agents = ags, context_dim = context_dimensions,
       weights = fmap_of_list (map (\<lambda>agent. (agent, map (w0 agent) [0..<context_dimensions])) ags),
       history = [] \<rparr>"

definition predict_reward :: "contextual_bandit \<Rightarrow> string \<Rightarrow> real list \<Rightarrow> py_error + real" where
  "predict_reward cb agent context =
     (case fmlookup (weights cb) agent of
        None \<Rightarrow> Inl KeyError
      | Some w \<Rightarrow>
          if length w \<noteq> length context then Inl ValueError
          else Inr (sum_list (map2 (*) w context)))"

definition update_weights ::
  "real \<Rightarrow> contextual_bandit \<Rightarrow> string \<Rightarrow> real list \<Rightarrow> real \<Rightarrow> real
     \<Rightarrow> (py_error + unit) \<times> contextual_bandit" where
  "update_weights now cb agent context reward lr =
     (case predict_reward cb agent context of
        Inl e \<Rightarrow> (Inl e, cb)
      | Inr predicted \<Rightarrow>
          let error = reward - predicted
          in (case fmlookup (weights cb) agent of
                None \<Rightarrow> (Inl KeyError, cb)
              | Some w \<Rightarrow>
                  let cb1 = cb\<lparr>weights :=
                              fmupd agent (map2 (\<lambda>wi xi. wi + lr * error * xi) w context)
                                (weights cb)\<rparr>
                  in (Inr (),
                      cb1\<lparr>history := history cb1 @
                            [\<lparr> he_agent = agent, he_context = context, he_reward = reward,
                               he_error = error, he_timestamp = now \<rparr>]\<rparr>)))"

subsection \<open>Predicates used to state the bandits' properties\<close>

text \<open>
  \<open>ucb_ok\<close>: every agent has its three entries, no count is negative, and before the
  first selection every count is 0. \<open>untried\<close>: the agents with selection count 0.
\<close>

definition arm_ok :: "bandit \<Rightarrow> string \<Rightarrow> bool" where
  "arm_ok b agent =
     (fmlookup (rewards b) agent \<noteq> None \<and> fmlookup (cumulative_reward b) agent \<noteq> None
      \<and> (case fmlookup (selection_count b) agent of
            None \<Rightarrow> False
          | Some cnt \<Rightarrow> 0 \<le> cnt \<and> (if total_selections b = 0 then cnt = 0 else True)))"

definition ucb_ok :: "bandit \<Rightarrow> bool" where
  "ucb_ok b = (0 \<le> total_selections b \<and> list_all (arm_ok b) (agents b))"

definition untried :: "bandit \<Rightarrow> string list" where
  "untried b = filter (\<lambda>agent. fmlookup (selection_count b) agent = Some 0) (agents b)"

text \<open>Every agent has a weight vector of the bandit's dimension.\<close>

definition cb_ok :: "contextual_bandit \<Rightarrow> bool" where
  "cb_ok cb =
     list_all (\<lambda>agent. case fmlookup (weights cb) agent of
                         None \<Rightarrow> False
                       | Some w \<Rightarrow> length w = context_dim cb) (cb_agents cb)"

text \<open>Three agents, and three rounds whose first random pick is the second agent.\<close>

definition three_agents :: "string list" where
  "three_agents = [''DataProcessor_A'', ''Translator_B'', ''Computer_C'']"

definition three_rounds :: "(nat \<times> real) list" where
  "three_rounds = [(1, 0.9), (0, 0.1), (0, 0.5)]"

section \<open>Ledger: sums over the two dicts\<close>

lemma sum_values_upd:
  "sum_values (fmupd k v m) =
     sum_values m - (case fmlookup m k of None \<Rightarrow> 0 | Some b \<Rightarrow> b) + v"
proof (cases "fmlookup m k")
  case None
  then have nk: "k \<notin> fmdom' m" by (simp add: fmdom'_notI)
  have "sum_values (fmupd k v m) = v + (\<Sum>x\<in>fmdom' m. the (fmlookup (fmupd k v m) x))"
    using nk by (simp add: sum_values_def)
  also have "(\<Sum>x\<in>fmdom' m. the (fmlookup (fmupd k v m) x)) = (\<Sum>x\<in>fmdom' m. the (fmlookup m x))"
    using nk by (intro sum.cong) auto
  finally show ?thesis using None by (simp add: sum_values_def)
next
  case (Some b)
  then have ik: "k \<in> fmdom' m" by (simp add: fmdom'I)
  have "sum_values (fmupd k v m) = (\<Sum>x\<in>fmdom' m. the (fmlookup (fmupd k v m) x))"
    using ik by (simp add: sum_values_def insert_absorb)
  also have "\<dots> = v + (\<Sum>x\<in>fmdom' m - {k}. the (fmlookup (fmupd k v m) x))"
    using ik by (simp add: sum.remove)
  also have "(\<Sum>x\<in>fmdom' m - {k}. the (fmlookup (fmupd k v m) x)) =
             (\<Sum>x\<in>fmdom' m - {k}. the (fmlookup m x))"
    by (intro sum.cong) auto
  finally have new: "sum_values (fmupd k v m) = v + (\<Sum>x\<in>fmdom' m - {k}. the (fmlookup m x))" .
  have "sum_values m = b + (\<Sum>x\<in>fmdom' m - {k}. the (fmlookup m x))"
    using ik Some by (simp add: sum_values_def sum.remove)
  with new Some show ?thesis by simp
qed

lemma sum_locked_upd:
  "sum_locked (fmupd k v m) =
     sum_locked m - (case fmlookup m k of None \<Rightarrow> 0 | Some e \<Rightarrow> lk_amount e) + lk_amount v"
proof (cases "fmlookup m k")
  case None
  then have nk: "k \<notin> fmdom' m" by (simp add: fmdom'_notI)
  have "sum_locked (fmupd k v m) =
          lk_amount v + (\<Sum>x\<in>fmdom' m. lk_amount (the (fmlookup (fmupd k v m) x)))"
    using nk by (simp add: sum_locked_def)
  also have "(\<Sum>x\<in>fmdom' m. lk_amount (the (fmlookup (fmupd k v m) x))) =
             (\<Sum>x\<in>fmdom' m. lk_amount (the (fmlookup m x)))"
    using nk by (intro sum.cong) auto
  finally show ?thesis using None by (simp add: sum_locked_def)
next
  case (Some e)
  then have ik: "k \<in> fmdom' m" by (simp add: fmdom'I)
  have "sum_locked (fmupd k v m) = (\<Sum>x\<in>fmdom' m. lk_amount (the (fmlookup (fmupd k v m) x)))"
    using ik by (simp add: sum_locked_def insert_absorb)
  also have "\<dots> = lk_amount v + (\<Sum>x\<in>fmdom' m - {k}. lk_amount (the (fmlookup (fmupd k v m) x)))"
    using ik by (simp add: sum.remove)
  also have "(\<Sum>x\<in>fmdom' m - {k}. lk_amount (the (fmlookup (fmupd k v m) x))) =
             (\<Sum>x\<in>fmdom' m - {k}. lk_amount (the (fmlookup m x)))"
    by (intro sum.cong) auto
  finally have new: "sum_locked (fmupd k v m) =
      lk_amount v + (\<Sum>x\<in>fmdom' m - {k}. lk_amount (the (fmlookup m x)))" .
  have "sum_locked m = lk_amount e + (\<Sum>x\<in>fmdom' m - {k}. lk_amount (the (fmlookup m x)))"
    using ik Some by (simp add: sum_locked_def sum.remove)
  with new Some show ?thesis by simp
qed

lemma sum_locked_drop:
  "sum_locked (fmdrop k m) =
     sum_locked m - (case fmlookup m k of None \<Rightarrow> 0 | Some e \<Rightarrow> lk_amount e)"
proof (cases "fmlookup m k")
  case None
  then have "fmdrop k m = m" by (simp add: fmdrop_idle' fmdom'_notI)
  with None show ?thesis by simp
next
  case (Some e)
  then have ik: "k \<in> fmdom' m" by (simp add: fmdom'I)
  have "sum_locked (fmdrop k m) = (\<Sum>x\<in>fmdom' m - {k}. lk_amount (the (fmlookup (fmdrop k m) x)))"
    by (simp add: sum_locked_def)
  also have "\<dots> = (\<Sum>x\<in>fmdom' m - {k}. lk_amount (the (fmlookup m x)))"
    by (intro sum.cong) auto
  finally have new: "sum_locked (fmdrop k m) = (\<Sum>x\<in>fmdom' m - {k}. lk_amount (the (fmlookup m x)))" .
  have "sum_locked m = lk_amount e + (\<Sum>x\<in>fmdom' m - {k}. lk_amount (the (fmlookup m x)))"
    using ik Some by (simp add: sum_locked_def sum.remove)
  with new Some show ?thesis by simp
qed

section \<open>Ledger: what one call does to the total supply\<close>

lemma total_supply_create_account:
  "total_supply (create_account s a b) = total_supply s - get_balance s a + b"
  by (simp add: total_supply_def create_account_def sum_values_upd get_balance_def)

lemma total_supply_transfer:
  "total_supply (snd (transfer h now s a b n sv)) = total_supply s"
  by (simp add: transfer_def total_supply_def sum_values_upd get_balance_def Let_def
           split: option.splits)

lemma total_supply_lock_funds:
  "get_balance s a \<ge> n \<longrightarrow> fmlookup (locked_funds s) (lock_id_of h t_id p) = None \<Longrightarrow>
   total_supply (snd (lock_funds h t_id t_stamp s a n p)) = total_supply s"
  by (simp add: lock_funds_def total_supply_def sum_values_upd sum_locked_upd get_balance_def
        Let_def split: option.splits)

lemma total_supply_release_funds:
  "total_supply (snd (release_funds s l a)) = total_supply s"
  by (simp add: release_funds_def total_supply_def sum_values_upd sum_locked_drop
        get_balance_def Let_def split: option.splits)

lemma owners_ok_lookup:
  "owners_ok s \<Longrightarrow> fmlookup (locked_funds s) l = Some e \<Longrightarrow>
   \<exists>b. fmlookup (accounts s) (lk_agent e) = Some b"
  unfolding owners_ok_def fmpred_iff by blast

lemma total_supply_return_locked_funds:
  assumes "owners_ok s"
  shows "total_supply (snd (return_locked_funds s l)) = total_supply s"
proof (cases "fmlookup (locked_funds s) l")
  case None
  then show ?thesis by (simp add: return_locked_funds_def)
next
  case (Some e)
  from owners_ok_lookup [OF assms Some] obtain b
    where b: "fmlookup (accounts s) (lk_agent e) = Some b" by blast
  show ?thesis using Some b
    by (simp add: return_locked_funds_def total_supply_def sum_values_upd sum_locked_drop)
qed

lemma owners_ok_step: "owners_ok s \<Longrightarrow> owners_ok (step h s c)"
proof (cases c)
  case (Create_account a b)
  then show "owners_ok s \<Longrightarrow> owners_ok (step h s c)"
    by (auto simp add: owners_ok_def create_account_def fmpred_iff)
next
  case (Transfer now a b n sv)
  then show "owners_ok s \<Longrightarrow> owners_ok (step h s c)"
    by (auto simp add: owners_ok_def transfer_def fmpred_iff Let_def split: option.splits)
next
  case (Lock_funds t_id t_stamp a n p)
  then show "owners_ok s \<Longrightarrow> owners_ok (step h s c)"
    by (auto simp add: owners_ok_def lock_funds_def fmpred_iff Let_def
          split: option.splits if_splits)
next
  case (Release_funds l a)
  then show "owners_ok s \<Longrightarrow> owners_ok (step h s c)"
    by (auto simp add: owners_ok_def release_funds_def fmpred_iff Let_def
          split: option.splits if_splits)
next
  case (Return_locked_funds l)
  then show "owners_ok s \<Longrightarrow> owners_ok (step h s c)"
    by (auto simp add: owners_ok_def return_locked_funds_def fmpred_iff Let_def
          split: option.splits if_splits)
qed

lemma total_supply_step:
  "owners_ok s \<Longrightarrow> mints_fresh h s c \<Longrightarrow>
   total_supply (step h s c) = total_supply s + created_by s c"
proof (cases c)
  case (Lock_funds t_id t_stamp a n p)
  assume "mints_fresh h s c"
  with Lock_funds have "get_balance s a \<ge> n \<longrightarrow> fmlookup (locked_funds s) (lock_id_of h t_id p) = None"
    by (simp split: if_splits)
  then show ?thesis using Lock_funds by (simp add: total_supply_lock_funds)
qed (simp_all add: total_supply_create_account total_supply_transfer
       total_supply_release_funds total_supply_return_locked_funds)

lemma owners_ok_MockLedger: "owners_ok MockLedger"
  by (simp add: owners_ok_def MockLedger_def)

section \<open>Ledger: transfer\<close>

lemma transfer_known_sender:
  "fmlookup (accounts s) sender = Some b \<Longrightarrow>
   transfer h now s sender receiver amount service =
     (if b \<ge> amount then
        (Inr True,
         s\<lparr>accounts := fmupd receiver
                (get_balance (s\<lparr>accounts := fmupd sender (b - amount) (accounts s)\<rparr>) receiver + amount)
                (fmupd sender (b - amount) (accounts s)),
           transaction_history :=
             transaction_history s @ [Transaction h now sender receiver amount service]\<rparr>)
      else (Inr False, s))"
  by (simp add: transfer_def get_balance_def Let_def)

lemma transfer_unknown_sender:
  "fmlookup (accounts s) sender = None \<Longrightarrow>
   transfer h now s sender receiver amount service =
     (if 0 \<ge> amount then (Inl KeyError, s) else (Inr False, s))"
  by (simp add: transfer_def get_balance_def)

section \<open>Ledger: balances that are not negative\<close>

lemma nonneg_step:
  assumes "balances_nonneg s" "locks_nonneg s" "nonneg_args c"
  shows "balances_nonneg (step h s c) \<and> locks_nonneg (step h s c)"
proof (cases c)
  case (Create_account a b)
  with assms show ?thesis
    by (auto simp add: balances_nonneg_def locks_nonneg_def create_account_def)
next
  case (Transfer now a b n sv)
  with assms show ?thesis
    by (auto simp add: balances_nonneg_def locks_nonneg_def transfer_def get_balance_def
          fmpred_iff Let_def split: option.splits if_splits)
next
  case (Lock_funds t_id t_stamp a n p)
  with assms show ?thesis
    by (auto simp add: balances_nonneg_def locks_nonneg_def lock_funds_def get_balance_def
          fmpred_iff Let_def split: option.splits if_splits)
next
  case (Release_funds l a)
  show ?thesis
  proof (cases "fmlookup (locked_funds s) l")
    case None
    with assms Release_funds show ?thesis by (simp add: release_funds_def)
  next
    case (Some e)
    from assms(2) Some have "0 \<le> lk_amount e"
      unfolding locks_nonneg_def fmpred_iff by blast
    with assms Release_funds Some show ?thesis
      by (auto simp add: balances_nonneg_def locks_nonneg_def release_funds_def get_balance_def
            fmpred_iff Let_def split: option.splits if_splits)
  qed
next
  case (Return_locked_funds l)
  show ?thesis
  proof (cases "fmlookup (locked_funds s) l")
    case None
    with assms Return_locked_funds show ?thesis by (simp add: return_locked_funds_def)
  next
    case (Some e)
    from assms(2) Some have "0 \<le> lk_amount e"
      unfolding locks_nonneg_def fmpred_iff by blast
    with assms Return_locked_funds Some show ?thesis
      by (auto simp add: balances_nonneg_def locks_nonneg_def return_locked_funds_def
            fmpred_iff Let_def split: option.splits if_splits)
  qed
qed

lemma nonneg_run:
  "balances_nonneg s \<Longrightarrow> locks_nonneg s \<Longrightarrow> \<forall>c\<in>set cs. nonneg_args c \<Longrightarrow>
   balances_nonneg (run h s cs) \<and> locks_nonneg (run h s cs)"
proof (induction cs arbitrary: s)
  case Nil
  then show ?case by simp
next
  case (Cons c cs)
  from Cons.prems have "nonneg_args c" by simp
  from nonneg_step [OF Cons.prems(1,2) this]
  have "balances_nonneg (step h s c)" "locks_nonneg (step h s c)" by simp_all
  moreover from Cons.prems have "\<forall>c\<in>set cs. nonneg_args c" by simp
  ultimately show ?case using Cons.IH by simp
qed

lemma balances_nonneg_get_balance: "balances_nonneg s \<Longrightarrow> 0 \<le> get_balance s a"
  by (auto simp add: balances_nonneg_def get_balance_def fmpred_iff split: option.splits)

section \<open>Ledger: a lock id that is not active\<close>

lemma release_funds_unknown:
  "fmlookup (locked_funds s) l = None \<Longrightarrow> release_funds s l a = (Inr False, s)"
  by (simp add: release_funds_def)

lemma return_locked_funds_unknown:
  "fmlookup (locked_funds s) l = None \<Longrightarrow> return_locked_funds s l = (Inr False, s)"
  by (simp add: return_locked_funds_def)

lemma release_funds_removes:
  "fmlookup (locked_funds (snd (release_funds s l a))) l = None"
  by (simp add: release_funds_def Let_def split: option.splits)

lemma return_locked_funds_removes:
  "fmlookup (locked_funds (snd (return_locked_funds s l))) l = None"
  by (simp add: return_locked_funds_def Let_def split: option.splits)

lemma inactive_step:
  "fmlookup (locked_funds s) l = None \<Longrightarrow> mints_other h l c \<Longrightarrow>
   fmlookup (locked_funds (step h s c)) l = None"
  by (cases c)
     (auto simp add: create_account_def transfer_def lock_funds_def release_funds_def
        return_locked_funds_def Let_def split: option.splits if_splits)

lemma inactive_run:
  "fmlookup (locked_funds s) l = None \<Longrightarrow> \<forall>c\<in>set cs. mints_other h l c \<Longrightarrow>
   fmlookup (locked_funds (run h s cs)) l = None"
  by (induction cs arbitrary: s) (simp_all add: inactive_step)

section \<open>Negotiator: the methods on a well-formed table\<close>

lemma q_ok_row:
  "q_ok n \<Longrightarrow> fmlookup (q_table n) s = Some row \<Longrightarrow> map fst row = actions"
  unfolding q_ok_def fmpred_iff by blast

lemma q_ok_upd:
  "q_ok n \<Longrightarrow> map fst row = actions \<Longrightarrow> q_ok (n\<lparr>q_table := fmupd s row (q_table n)\<rparr>)"
  unfolding q_ok_def by (auto simp add: fmpred_iff)

lemma zero_row_keys: "map fst zero_row = actions"
  by (simp add: zero_row_def comp_def)

lemma max_entry_mem: "max_entry best row \<in> set (best # row)"
  by (induction row arbitrary: best) (auto split: if_splits)

lemma max_key_ok:
  assumes "map fst row = actions"
  shows "\<exists>a. max_key row = Inr a \<and> a \<in> set actions"
proof (cases row)
  case Nil
  with assms show ?thesis by (simp add: actions_def)
next
  case (Cons kv rest)
  have "fst (max_entry kv rest) \<in> fst ` set (kv # rest)"
    using max_entry_mem [of kv rest] by (rule imageI)
  also have "fst ` set (kv # rest) = set actions"
    using assms Cons by (metis set_map)
  finally show ?thesis using Cons by (simp add: max_key_def)
qed

lemma random_choice_mem:
  "xs \<noteq> [] \<Longrightarrow> \<exists>b. random_choice xs c = Inr b \<and> b \<in> set xs"
  by (simp add: random_choice_def)

lemma get_action_ok:
  assumes "q_ok n"
  shows "\<exists>a n1. get_action n s e d = (Inr a, n1) \<and> a \<in> set actions \<and> q_ok n1"
proof -
  define n1 where "n1 = (if fmlookup (q_table n) s = None
                         then n\<lparr>q_table := fmupd s zero_row (q_table n)\<rparr> else n)"
  have ok1: "q_ok n1"
    using assms by (simp add: n1_def q_ok_upd zero_row_keys)
  obtain row where row: "fmlookup (q_table n1) s = Some row"
    by (cases "fmlookup (q_table n) s") (auto simp add: n1_def)
  from q_ok_row [OF ok1 row] obtain a where a: "max_key row = Inr a" "a \<in> set actions"
    using max_key_ok by blast
  have pick: "\<exists>b. random_choice actions (snd d) = Inr b \<and> b \<in> set actions"
    by (rule random_choice_mem) (simp add: actions_def)
  have "get_action n s e d =
          (if e \<and> fst d < epsilon n1 then (random_choice actions (snd d), n1) else (max_key row, n1))"
    using row by (simp add: get_action_def n1_def [symmetric] Let_def)
  with a pick ok1 show ?thesis by auto
qed

lemma update_keys_same:
  "a \<in> set (map fst row) \<Longrightarrow> map fst (AList.update a v row) = map fst row"
  by (simp add: update_keys)

lemma update_q_value_terminal:
  assumes "q_ok n" "a \<in> set actions"
  shows "\<exists>n2. update_q_value n s a r None = (Inr (), n2) \<and> q_ok n2"
proof -
  define n1 where "n1 = (if fmlookup (q_table n) s = None
                         then n\<lparr>q_table := fmupd s zero_row (q_table n)\<rparr> else n)"
  have ok1: "q_ok n1"
    using assms by (simp add: n1_def q_ok_upd zero_row_keys)
  obtain row where row: "fmlookup (q_table n1) s = Some row"
    by (cases "fmlookup (q_table n) s") (auto simp add: n1_def)
  have keys: "map fst row = actions" by (rule q_ok_row [OF ok1 row])
  with assms(2) have "a \<in> fst ` set row" by (metis set_map)
  then obtain q where q: "map_of row a = Some q"
    by (metis domD dom_map_of_conv_image_fst)
  have keys': "map fst (AList.update a v row) = actions" for v
    using keys assms(2) by (simp add: update_keys_same)
  have "update_q_value n s a r None =
          (Inr (), n1\<lparr>q_table := fmupd s
              (AList.update a (q + learning_rate n1 * (r + discount_factor n1 * 0 - q)) row)
              (q_table n1)\<rparr>)"
    using row q by (simp add: update_q_value_def n1_def [symmetric] truthy_def Let_def)
  moreover have "q_ok (n1\<lparr>q_table := fmupd s
              (AList.update a (q + learning_rate n1 * (r + discount_factor n1 * 0 - q)) row)
              (q_table n1)\<rparr>)"
    by (rule q_ok_upd [OF ok1 keys'])
  ultimately show ?thesis by blast
qed

lemma calculate_reward_defined:
  assumes "market_price \<noteq> 0"
  shows "\<exists>r. calculate_reward final_price market_price deal_made = Inr r"
proof (cases "calculate_reward final_price market_price deal_made")
  case (Inl e)
  with assms show ?thesis
    by (simp add: calculate_reward_def Let_def split: if_splits)
next
  case (Inr r)
  then show ?thesis by blast
qed

lemma calculate_reward_no_deal: "calculate_reward final_price market_price False = Inr (- 1)"
  by (simp add: calculate_reward_def)

section \<open>Negotiator: the loop\<close>

lemma loop_post_counter:
  assumes "is_counter (s, a)" "loop_post (apply_action offer a) k r"
  shows "loop_post offer (Suc k) (decided (s, a) r)"
proof -
  obtain ex n' dps where r: "r = (ex, n', dps)" by (cases r) auto
  show ?thesis
  proof (cases ex)
    case (Returned res)
    with assms r show ?thesis
      by (auto simp add: loop_post_def decided_def split: if_splits)
  next
    case (Raised e)
    with assms r show ?thesis by (simp add: loop_post_def)
  next
    case (Exhausted current_offer)
    with assms r show ?thesis
      by (simp add: loop_post_def decided_def)
  qed
qed

lemma negotiate_loop_post:
  assumes "market_price \<noteq> 0" "max_rounds \<noteq> 0"
  shows "q_ok n \<Longrightarrow>
         loop_post offer (length rounds)
           (negotiate_loop rnd service_type market_price agent_reputation max_rounds n offer rounds)"
proof (induction rounds arbitrary: n offer)
  case Nil
  then show ?case by (simp add: loop_post_def)
next
  case (Cons k rounds)
  define state where
    "state = get_state service_type offer market_price agent_reputation
               (real k / real_of_int max_rounds)"
  from get_action_ok [OF Cons.prems] obtain a n1
    where ga: "get_action n state True (rnd k) = (Inr a, n1)"
      and a: "a \<in> set actions" and ok1: "q_ok n1"
    by blast
  from calculate_reward_defined [OF assms(1)] obtain r
    where cr: "calculate_reward offer market_price True = Inr r" by blast
  from update_q_value_terminal [OF ok1 a] obtain n2 where
    up_acc: "update_q_value n1 state a r None = (Inr (), n2)" and ok2: "q_ok n2" by blast
  from update_q_value_terminal [OF ok1 a] obtain n3 where
    up_rej: "update_q_value n1 state a (- 1) None = (Inr (), n3)" and ok3: "q_ok n3" by blast
  from update_q_value_terminal [OF ok1 a] obtain n4 where
    up_cnt: "update_q_value n1 state a (- 0.1) None = (Inr (), n4)" and ok4: "q_ok n4" by blast
  from a consider "a = ''accept''" | "a = ''reject''" | "a = ''counter_low''"
    | "a = ''counter_high''"
    by (auto simp add: actions_def)
  then show ?case
  proof cases
    case 1
    have "negotiate_loop rnd service_type market_price agent_reputation max_rounds n offer
            (k # rounds) = (Returned (''accept'', offer), n2, [(state, a)])"
      using assms(2) ga cr up_acc 1
      by (simp add: negotiate_loop.simps(2) state_def [symmetric] decided_def)
    with ok2 1 show ?thesis
      by (simp add: loop_post_def apply_action_def)
  next
    case 2
    have "negotiate_loop rnd service_type market_price agent_reputation max_rounds n offer
            (k # rounds) = (Returned (''reject'', 0), n3, [(state, a)])"
      using assms(2) ga up_rej 2
      by (simp add: negotiate_loop.simps(2) state_def [symmetric] decided_def
            calculate_reward_no_deal)
    with ok3 2 show ?thesis
      by (simp add: loop_post_def)
  next
    case 3
    have "negotiate_loop rnd service_type market_price agent_reputation max_rounds n offer
            (k # rounds) =
          decided (state, a)
            (negotiate_loop rnd service_type market_price agent_reputation max_rounds n4
               (apply_action offer a) rounds)"
      using assms(2) ga up_cnt 3
      by (simp add: negotiate_loop.simps(2) state_def [symmetric] apply_action_def)
    moreover have "is_counter (state, a)" using 3 by (simp add: is_counter_def)
    ultimately show ?thesis
      using loop_post_counter Cons.IH [OF ok4] by simp
  next
    case 4
    have "negotiate_loop rnd service_type market_price agent_reputation max_rounds n offer
            (k # rounds) =
          decided (state, a)
            (negotiate_loop rnd service_type market_price agent_reputation max_rounds n4
               (apply_action offer a) rounds)"
      using assms(2) ga up_cnt 4
      by (simp add: negotiate_loop.simps(2) state_def [symmetric] apply_action_def)
    moreover have "is_counter (state, a)" using 4 by (simp add: is_counter_def)
    ultimately show ?thesis
      using loop_post_counter Cons.IH [OF ok4] by simp
  qed
qed

lemma zero_post_decided: "zero_post (decided d r) = zero_post r"
  by (cases r) (simp add: zero_post_def decided_def)

lemma negotiate_loop_zero:
  assumes "max_rounds \<noteq> 0"
  shows "q_ok n \<Longrightarrow>
         zero_post (negotiate_loop rnd service_type 0 agent_reputation max_rounds n offer rounds)"
proof (induction rounds arbitrary: n offer)
  case Nil
  then show ?case by (simp add: zero_post_def)
next
  case (Cons k rounds)
  define state where
    "state = get_state service_type offer 0 agent_reputation (real k / real_of_int max_rounds)"
  from get_action_ok [OF Cons.prems] obtain a n1
    where ga: "get_action n state True (rnd k) = (Inr a, n1)"
      and a: "a \<in> set actions" and ok1: "q_ok n1"
    by blast
  from update_q_value_terminal [OF ok1 a] obtain n3 where
    up_rej: "update_q_value n1 state a (- 1) None = (Inr (), n3)" and ok3: "q_ok n3" by blast
  from update_q_value_terminal [OF ok1 a] obtain n4 where
    up_cnt: "update_q_value n1 state a (- 0.1) None = (Inr (), n4)" and ok4: "q_ok n4" by blast
  from a consider "a = ''accept''" | "a = ''reject''" | "a = ''counter_low''"
    | "a = ''counter_high''"
    by (auto simp add: actions_def)
  then show ?case
  proof cases
    case 1
    have "negotiate_loop rnd service_type 0 agent_reputation max_rounds n offer (k # rounds)
            = (Raised ZeroDivisionError, n1, [(state, a)])"
      using assms ga 1
      by (simp add: negotiate_loop.simps(2) state_def [symmetric] decided_def
            calculate_reward_def)
    with ok1 show ?thesis by (simp add: zero_post_def)
  next
    case 2
    have "negotiate_loop rnd service_type 0 agent_reputation max_rounds n offer (k # rounds)
            = (Returned (''reject'', 0), n3, [(state, a)])"
      using assms ga up_rej 2
      by (simp add: negotiate_loop.simps(2) state_def [symmetric] decided_def
            calculate_reward_no_deal)
    with ok3 show ?thesis by (simp add: zero_post_def)
  next
    case 3
    have "negotiate_loop rnd service_type 0 agent_reputation max_rounds n offer (k # rounds) =
          decided (state, a)
            (negotiate_loop rnd service_type 0 agent_reputation max_rounds n4
               (apply_action offer a) rounds)"
      using assms ga up_cnt 3
      by (simp add: negotiate_loop.simps(2) state_def [symmetric] apply_action_def)
    then show ?thesis using Cons.IH [OF ok4] by (simp add: zero_post_decided)
  next
    case 4
    have "negotiate_loop rnd service_type 0 agent_reputation max_rounds n offer (k # rounds) =
          decided (state, a)
            (negotiate_loop rnd service_type 0 agent_reputation max_rounds n4
               (apply_action offer a) rounds)"
      using assms ga up_cnt 4
      by (simp add: negotiate_loop.simps(2) state_def [symmetric] apply_action_def)
    then show ?thesis using Cons.IH [OF ok4] by (simp add: zero_post_decided)
  qed
qed

section \<open>Negotiator: the whole call\<close>

lemma loop_post_py_range:
  assumes "market_price \<noteq> 0" "q_ok n"
  shows "loop_post offer (nat max_rounds)
           (negotiate_loop rnd service_type market_price agent_reputation max_rounds n offer
              (py_range max_rounds))"
proof (cases "max_rounds = 0")
  case True
  with assms(2) show ?thesis by (simp add: py_range_def loop_post_def)
next
  case False
  from negotiate_loop_post [OF assms(1) False assms(2), of offer "py_range max_rounds"]
  show ?thesis by (simp add: py_range_def)
qed

lemma counters_not_final:
  assumes "dps \<noteq> []" "snd (last dps) = ''accept'' \<or> snd (last dps) = ''reject''"
  shows "\<not> list_all is_counter dps"
proof
  assume "list_all is_counter dps"
  moreover have "last dps \<in> set dps" using assms(1) by simp
  ultimately have "is_counter (last dps)" by (simp add: list_all_iff)
  with assms(2) show False by (auto simp add: is_counter_def)
qed

lemma negotiate_result:
  assumes "market_price \<noteq> 0" "q_ok n"
  shows "\<exists>res n' dps.
           negotiate rnd n service_type offer market_price agent_reputation max_rounds
             = (Inr res, n', dps)
           \<and> q_ok n' \<and> length dps \<le> nat max_rounds
           \<and> (res = (''accept'', foldl apply_action offer (map snd dps)) \<or> res = (''reject'', 0))
           \<and> (list_all is_counter dps \<longrightarrow>
                length dps = nat max_rounds
                \<and> res = (''accept'', foldl apply_action offer (map snd dps)))"
proof -
  obtain ex n1 dps where loop:
    "negotiate_loop rnd service_type market_price agent_reputation max_rounds n offer
       (py_range max_rounds) = (ex, n1, dps)"
    by (metis prod_cases3)
  from loop_post_py_range [OF assms, of offer max_rounds rnd service_type agent_reputation] loop
  have post: "loop_post offer (nat max_rounds) (ex, n1, dps)" by simp
  show ?thesis
  proof (cases ex)
    case (Returned r)
    from post Returned have ne: "dps \<noteq> []"
      and fin: "snd (last dps) = ''accept'' \<or> snd (last dps) = ''reject''"
      by (auto simp add: loop_post_def split: if_splits)
    from counters_not_final [OF ne fin] post Returned loop show ?thesis
      by (auto simp add: negotiate_def loop_post_def split: if_splits)
  next
    case (Raised e)
    with post show ?thesis by (simp add: loop_post_def)
  next
    case (Exhausted current_offer)
    with post have ok1: "q_ok n1" and len: "length dps = nat max_rounds"
      and off: "current_offer = foldl apply_action offer (map snd dps)"
      by (simp_all add: loop_post_def)
    from calculate_reward_defined [OF assms(1)] obtain r
      where cr: "calculate_reward current_offer market_price True = Inr r" by blast
    have "''accept'' \<in> set actions" by (simp add: actions_def)
    from update_q_value_terminal [OF ok1 this] obtain n2 where
      up: "update_q_value n1
             (get_state service_type current_offer market_price agent_reputation 1.0)
             ''accept'' r None = (Inr (), n2)"
      and ok2: "q_ok n2" by blast
    have "negotiate rnd n service_type offer market_price agent_reputation max_rounds
            = (Inr (''accept'', current_offer), n2, dps)"
      using loop Exhausted cr up by (simp add: negotiate_def)
    with ok2 len off show ?thesis by simp
  qed
qed

lemma negotiate_zero_market:
  assumes "q_ok n"
  shows "fst (negotiate rnd n service_type offer 0 agent_reputation max_rounds)
           = Inl ZeroDivisionError
         \<or> fst (negotiate rnd n service_type offer 0 agent_reputation max_rounds)
           = Inr (''reject'', 0)"
proof -
  obtain ex n1 dps where loop:
    "negotiate_loop rnd service_type 0 agent_reputation max_rounds n offer
       (py_range max_rounds) = (ex, n1, dps)"
    by (metis prod_cases3)
  have post: "zero_post (ex, n1, dps)"
  proof (cases "max_rounds = 0")
    case True
    with assms loop show ?thesis by (auto simp add: py_range_def zero_post_def)
  next
    case False
    from negotiate_loop_zero [OF False assms, of rnd service_type agent_reputation offer
        "py_range max_rounds"] loop
    show ?thesis by simp
  qed
  show ?thesis
  proof (cases ex)
    case (Returned r)
    with post loop show ?thesis by (simp add: negotiate_def zero_post_def)
  next
    case (Raised e)
    with post loop show ?thesis by (simp add: negotiate_def zero_post_def)
  next
    case (Exhausted current_offer)
    with loop show ?thesis by (simp add: negotiate_def calculate_reward_def)
  qed
qed

section \<open>Bandit: UCB selection\<close>

lemma ucb_ok_arm:
  "ucb_ok b \<Longrightarrow> agent \<in> set (agents b) \<Longrightarrow> arm_ok b agent"
  by (simp add: ucb_ok_def list_all_iff)

lemma arm_ok_count:
  assumes "arm_ok b agent"
  obtains cnt where "fmlookup (selection_count b) agent = Some cnt" "0 \<le> cnt"
    "total_selections b = 0 \<Longrightarrow> cnt = 0"
  using assms by (auto simp add: arm_ok_def split: option.splits if_splits)

lemma ucb_value_ok:
  assumes "arm_ok b agent"
  shows "\<exists>v. ucb_value b c agent = Inr v
              \<and> (v = PosInf \<longleftrightarrow> fmlookup (selection_count b) agent = Some 0)"
  using assms by (auto simp add: arm_ok_def ucb_value_def Let_def split: option.splits)

lemma ucb_values_ok:
  "list_all (arm_ok b) ags \<Longrightarrow>
   \<exists>vs. ucb_values b c ags = Inr vs \<and> map fst vs = ags
        \<and> (\<forall>kv\<in>set vs. snd kv = PosInf \<longleftrightarrow> fmlookup (selection_count b) (fst kv) = Some 0)"
proof (induction ags)
  case Nil
  then show ?case by simp
next
  case (Cons agent rest)
  from Cons.prems have "arm_ok b agent" and "list_all (arm_ok b) rest" by simp_all
  from ucb_value_ok [OF this(1)] obtain v where
    v: "ucb_value b c agent = Inr v"
       "v = PosInf \<longleftrightarrow> fmlookup (selection_count b) agent = Some 0" by blast
  from Cons.IH [OF \<open>list_all (arm_ok b) rest\<close>] obtain vs where
    vs: "ucb_values b c rest = Inr vs" "map fst vs = rest"
        "\<forall>kv\<in>set vs. snd kv = PosInf \<longleftrightarrow> fmlookup (selection_count b) (fst kv) = Some 0"
    by blast
  from v vs show ?case by simp
qed

lemma max_score_mem: "max_score best vs \<in> set (best # vs)"
  by (induction vs arbitrary: best) (auto split: if_splits)

lemma score_gt_PosInf: "score_gt s t \<Longrightarrow> t = PosInf \<Longrightarrow> False"
  by (cases s) simp_all

lemma max_score_keeps_inf: "snd best = PosInf \<Longrightarrow> snd (max_score best vs) = PosInf"
proof (induction vs arbitrary: best)
  case Nil
  then show ?case by simp
next
  case (Cons kv vs)
  from Cons.prems have "\<not> score_gt (snd kv) (snd best)"
    using score_gt_PosInf by blast
  with Cons show ?case by simp
qed

lemma max_score_finds_inf:
  "\<exists>kv\<in>set (best # vs). snd kv = PosInf \<Longrightarrow> snd (max_score best vs) = PosInf"
proof (induction vs arbitrary: best)
  case Nil
  then show ?case by simp
next
  case (Cons kv vs)
  show ?case
  proof (cases "snd best = PosInf")
    case True
    then show ?thesis by (rule max_score_keeps_inf)
  next
    case False
    then obtain x where x: "snd best = Fin x" by (cases "snd best") auto
    show ?thesis
    proof (cases "snd kv = PosInf")
      case True
      with x have "score_gt (snd kv) (snd best)" by simp
      with True show ?thesis by (simp add: max_score_keeps_inf)
    next
      case nk: False
      with False Cons.prems have "\<exists>e\<in>set vs. snd e = PosInf" by auto
      then have "\<exists>e\<in>set ((if score_gt (snd kv) (snd best) then kv else best) # vs).
                   snd e = PosInf" by auto
      from Cons.IH [OF this] show ?thesis by simp
    qed
  qed
qed

lemma select_ucb1_untried:
  assumes "ucb_ok b" "untried b \<noteq> []"
  shows "\<exists>agent. select_ucb1 b c pick = Inr agent \<and> agent \<in> set (untried b)"
proof (cases "total_selections b = 0")
  case True
  from assms(2) have ne: "agents b \<noteq> []" by (auto simp add: untried_def)
  from random_choice_mem [OF ne] obtain agent where
    a: "random_choice (agents b) pick = Inr agent" "agent \<in> set (agents b)" by blast
  from ucb_ok_arm [OF assms(1) a(2)] True
  have "fmlookup (selection_count b) agent = Some 0"
    by (auto elim: arm_ok_count)
  with a True show ?thesis by (simp add: select_ucb1_def untried_def)
next
  case False
  from assms(1) have "list_all (arm_ok b) (agents b)" by (simp add: ucb_ok_def)
  from ucb_values_ok [OF this] obtain vs where
    vs: "ucb_values b c (agents b) = Inr vs" "map fst vs = agents b"
        "\<forall>kv\<in>set vs. snd kv = PosInf \<longleftrightarrow> fmlookup (selection_count b) (fst kv) = Some 0"
    by blast
  from assms(2) have "hd (untried b) \<in> set (untried b)" by simp
  then obtain u where u: "u \<in> set (agents b)"
    "fmlookup (selection_count b) u = Some 0"
    by (auto simp add: untried_def)
  from u(1) vs(2) obtain e where e: "e \<in> set vs" "fst e = u"
    by (metis (no_types, lifting) imageE list.set_map)
  with vs(3) u(2) have einf: "snd e = PosInf" by blast
  from e(1) obtain kv rest where kvs: "vs = kv # rest" by (cases vs) auto
  have inf: "snd (max_score kv rest) = PosInf"
    using e(1) einf kvs by (intro max_score_finds_inf) auto
  have mem: "max_score kv rest \<in> set vs"
    using max_score_mem [of kv rest] kvs by simp
  with vs(3) inf have cnt0: "fmlookup (selection_count b) (fst (max_score kv rest)) = Some 0"
    by blast
  from mem vs(2) have "fst (max_score kv rest) \<in> set (agents b)"
    by (metis imageI list.set_map)
  with cnt0 False vs(1) kvs show ?thesis
    by (simp add: select_ucb1_def untried_def)
qed

section \<open>Bandit: update_reward\<close>

lemma update_reward_known:
  assumes "ucb_ok b" "agent \<in> set (agents b)"
  shows "\<exists>b'. update_reward b agent r = (Inr (), b') \<and> agents b' = agents b \<and> ucb_ok b'
              \<and> untried b' = filter (\<lambda>a. a \<noteq> agent) (untried b)"
proof -
  from ucb_ok_arm [OF assms] obtain rs cum cnt where
    rs: "fmlookup (rewards b) agent = Some rs" and
    cum: "fmlookup (cumulative_reward b) agent = Some cum" and
    cnt: "fmlookup (selection_count b) agent = Some cnt" and nonneg: "0 \<le> cnt"
    by (auto simp add: arm_ok_def split: option.splits)
  define b' where
    "b' = b\<lparr>rewards := fmupd agent (rs @ [r]) (rewards b),
            cumulative_reward := fmupd agent (cum + r) (cumulative_reward b),
            selection_count := fmupd agent (cnt + 1) (selection_count b),
            total_selections := total_selections b + 1\<rparr>"
  have run: "update_reward b agent r = (Inr (), b')"
    using rs cum cnt by (simp add: update_reward_def b'_def)
  have ags: "agents b' = agents b" by (simp add: b'_def)
  from assms(1) have tot: "0 \<le> total_selections b" by (simp add: ucb_ok_def)
  have arm: "arm_ok b' a" if "a \<in> set (agents b)" for a
    using ucb_ok_arm [OF assms(1) that] tot nonneg
    by (auto simp add: arm_ok_def b'_def split: option.splits)
  have ok: "ucb_ok b'"
    using tot arm by (simp add: ucb_ok_def list_all_iff ags) (simp add: b'_def)
  have "untried b' = filter (\<lambda>a. a \<noteq> agent) (untried b)"
    using nonneg by (auto simp add: untried_def b'_def intro: filter_cong)
  with run ags ok show ?thesis by blast
qed

lemma update_reward_unknown:
  "fmlookup (rewards b) agent = None \<Longrightarrow> update_reward b agent r = (Inl KeyError, b)"
  by (simp add: update_reward_def)

section \<open>Bandit: a sequence of selections\<close>

lemma length_filter_neq:
  "distinct xs \<Longrightarrow> x \<in> set xs \<Longrightarrow> Suc (length (filter (\<lambda>a. a \<noteq> x) xs)) = length xs"
proof (induction xs)
  case Nil
  then show ?case by simp
next
  case (Cons y ys)
  show ?case
  proof (cases "y = x")
    case True
    with Cons.prems have "x \<notin> set ys" by simp
    then have "filter (\<lambda>a. a \<noteq> x) ys = ys" by (auto simp add: filter_id_conv)
    with True show ?thesis by simp
  next
    case False
    with Cons show ?thesis by simp
  qed
qed

lemma ucb_rounds_untried:
  "ucb_ok b \<Longrightarrow> distinct (agents b) \<Longrightarrow> length rounds = length (untried b) \<Longrightarrow>
   \<exists>selected b'. ucb_rounds b c rounds = (Inr selected, b')
                 \<and> distinct selected \<and> set selected = set (untried b)"
proof (induction rounds arbitrary: b)
  case Nil
  then show ?case by simp
next
  case (Cons pr rounds)
  from Cons.prems(3) have ne: "untried b \<noteq> []" by auto
  from select_ucb1_untried [OF Cons.prems(1) ne] obtain agent where
    sel: "select_ucb1 b c (fst pr) = Inr agent" and mem: "agent \<in> set (untried b)" by blast
  from mem have known: "agent \<in> set (agents b)" by (simp add: untried_def)
  from update_reward_known [OF Cons.prems(1) known] obtain b1 where
    up: "update_reward b agent (snd pr) = (Inr (), b1)" and ags: "agents b1 = agents b"
    and ok1: "ucb_ok b1" and un1: "untried b1 = filter (\<lambda>a. a \<noteq> agent) (untried b)"
    by blast
  from Cons.prems(2) have du: "distinct (untried b)" by (simp add: untried_def)
  from length_filter_neq [OF du mem] Cons.prems(3) un1
  have len: "length rounds = length (untried b1)" by simp
  from Cons.prems(2) ags have "distinct (agents b1)" by simp
  from Cons.IH [OF ok1 this len] obtain selected b2 where
    rest: "ucb_rounds b1 c rounds = (Inr selected, b2)" and ds: "distinct selected"
    and ss: "set selected = set (untried b1)" by blast
  have "ucb_rounds b c (pr # rounds) = (Inr (agent # selected), b2)"
    using sel up rest by simp
  moreover have "distinct (agent # selected)" using ds ss un1 by simp
  moreover have "set (agent # selected) = set (untried b)" using ss un1 mem by auto
  ultimately show ?case by blast
qed

lemma lookup_constructor:
  "fmlookup (fmap_of_list (map (\<lambda>agent. (agent, v)) ags)) a
     = (if a \<in> set ags then Some v else None)"
  by (simp add: fmlookup_of_list map_of_map_restrict restrict_map_def)

lemma MultiArmedBandit_ok: "ucb_ok (MultiArmedBandit ags ic)"
  by (simp add: ucb_ok_def list_all_iff arm_ok_def MultiArmedBandit_def lookup_constructor)

lemma MultiArmedBandit_untried: "untried (MultiArmedBandit ags ic) = ags"
  by (simp add: untried_def MultiArmedBandit_def lookup_constructor filter_id_conv)

section \<open>Contextual bandit and negotiator: updates on seen and unseen keys\<close>

lemma update_weights_known:
  assumes "cb_ok cb" "agent \<in> set (cb_agents cb)" "length context = context_dim cb"
  shows "\<exists>cb'. update_weights now cb agent context reward lr = (Inr (), cb')"
proof -
  from assms(1,2) obtain w where w: "fmlookup (weights cb) agent = Some w"
    "length w = context_dim cb"
    by (auto simp add: cb_ok_def list_all_iff split: option.splits)
  with assms(3) show ?thesis
    by (simp add: update_weights_def predict_reward_def Let_def)
qed

lemma update_weights_unknown:
  "fmlookup (weights cb) agent = None \<Longrightarrow>
   update_weights now cb agent context reward lr = (Inl KeyError, cb)"
  by (simp add: update_weights_def predict_reward_def)

lemma max_value_ok:
  assumes "map fst row = actions"
  shows "\<exists>q. max_value row = Inr q"
proof (cases row)
  case Nil
  with assms show ?thesis by (simp add: actions_def)
next
  case (Cons kv rest)
  then show ?thesis by (simp add: max_value_def)
qed

lemma update_q_value_any:
  assumes "q_ok n" "a \<in> set actions"
  shows "\<exists>n2. update_q_value n s a r ns = (Inr (), n2) \<and> q_ok n2
              \<and> fmlookup (q_table n2) s \<noteq> None"
proof -
  define n1 where "n1 = (if fmlookup (q_table n) s = None
                         then n\<lparr>q_table := fmupd s zero_row (q_table n)\<rparr> else n)"
  define n2 where "n2 = (if truthy ns \<and> fmlookup (q_table n1) (the ns) = None
                         then n1\<lparr>q_table := fmupd (the ns) zero_row (q_table n1)\<rparr> else n1)"
  have ok1: "q_ok n1"
    using assms by (simp add: n1_def q_ok_upd zero_row_keys)
  have ok2: "q_ok n2"
    using ok1 by (simp add: n2_def q_ok_upd zero_row_keys)
  have "fmlookup (q_table n1) s \<noteq> None"
    by (cases "fmlookup (q_table n) s") (auto simp add: n1_def)
  then have "fmlookup (q_table n2) s \<noteq> None"
    by (simp add: n2_def)
  then obtain row where row: "fmlookup (q_table n2) s = Some row"
    by blast
  have keys: "map fst row = actions" by (rule q_ok_row [OF ok2 row])
  with assms(2) have "a \<in> fst ` set row" by (metis set_map)
  then obtain q where q: "map_of row a = Some q"
    by (metis domD dom_map_of_conv_image_fst)
  have next_q: "\<exists>m. (if truthy ns
                      then (case fmlookup (q_table n2) (the ns) of
                              None \<Rightarrow> Inl KeyError
                            | Some next_row \<Rightarrow> max_value next_row)
                      else Inr 0) = Inr m"
  proof (cases "truthy ns")
    case True
    then obtain nrow where nrow: "fmlookup (q_table n2) (the ns) = Some nrow"
      by (cases "fmlookup (q_table n1) (the ns)") (auto simp add: n2_def)
    from max_value_ok [OF q_ok_row [OF ok2 nrow]] True nrow show ?thesis by simp
  next
    case False
    then show ?thesis by simp
  qed
  then obtain m where m: "(if truthy ns
                      then (case fmlookup (q_table n2) (the ns) of
                              None \<Rightarrow> Inl KeyError
                            | Some next_row \<Rightarrow> max_value next_row)
                      else Inr 0) = Inr m" by blast
  define n3 where
    "n3 = n2\<lparr>q_table := fmupd s
              (AList.update a (q + learning_rate n2 * (r + discount_factor n2 * m - q)) row)
              (q_table n2)\<rparr>"
  have "update_q_value n s a r ns = (Inr (), n3)"
    unfolding update_q_value_def n1_def [symmetric] Let_def n2_def [symmetric]
    using row q m by (simp add: n3_def)
  moreover have "q_ok n3"
    unfolding n3_def using keys assms(2) by (intro q_ok_upd ok2) (simp add: update_keys_same)
  moreover have "fmlookup (q_table n3) s \<noteq> None" by (simp add: n3_def)
  ultimately show ?thesis by blast
qed

section \<open>Ledger: the claims\<close>

text \<open>
  C1, as the claim states it, fails for \<^verbatim>\<open>create_account\<close>: the method assigns the
  balance unconditionally, so creating ''A'' with 50 when ''A'' holds 100 takes 50 out of the
  total supply.
\<close>

theorem create_account_decreases_supply:
  "total_supply (create_account (create_account MockLedger ''A'' 100) ''A'' 50)
     < total_supply (create_account MockLedger ''A'' 100)"
  by (simp add: total_supply_def sum_values_def sum_locked_def create_account_def MockLedger_def)

text \<open>
  C1 (amended). From any ledger in which every active lock belongs to an agent with an
  account (the empty ledger is one, and every call keeps it so), and for every sequence of
  \<^verbatim>\<open>create_account\<close>, \<^verbatim>\<open>transfer\<close>, \<^verbatim>\<open>lock_funds\<close>, \<^verbatim>\<open>release_funds\<close> and
  \<^verbatim>\<open>return_locked_funds\<close> calls in which each \<^verbatim>\<open>lock_funds\<close> writes its lock under an id
  that is not active, the total supply (all balances plus all active escrow amounts) at the
  end is the total supply at the start plus, for each \<^verbatim>\<open>create_account\<close>, its initial balance
  minus the balance that account had just before. So \<^verbatim>\<open>transfer\<close>, \<^verbatim>\<open>lock_funds\<close>,
  \<^verbatim>\<open>release_funds\<close> and \<^verbatim>\<open>return_locked_funds\<close> conserve it exactly, whatever they return,
  and \<^verbatim>\<open>create_account\<close> raises it exactly when the initial balance exceeds the previous one.
\<close>

theorem total_supply_conserved:
  "owners_ok s \<Longrightarrow> fresh_ids h s cs \<Longrightarrow>
   total_supply (run h s cs) = total_supply s + created h s cs"
proof (induction cs arbitrary: s)
  case Nil
  then show ?case by simp
next
  case (Cons c cs)
  from Cons.prems have ok': "owners_ok (step h s c)" and fr: "mints_fresh h s c"
    and fr': "fresh_ids h (step h s c) cs"
    by (simp_all add: owners_ok_step)
  from Cons.IH [OF ok' fr'] total_supply_step [OF Cons.prems(1) fr]
  show ?case by simp
qed

text \<open>The scenario of section 8 satisfies the hypotheses; its total supply ends at 200.\<close>

theorem total_supply_conserved_witness:
  "owners_ok MockLedger \<and> fresh_ids scenario_hash MockLedger scenario
   \<and> created scenario_hash MockLedger scenario = 200
   \<and> total_supply (run scenario_hash MockLedger scenario)
       = total_supply MockLedger + created scenario_hash MockLedger scenario"
proof -
  have fresh: "fresh_ids scenario_hash MockLedger scenario"
    by (simp add: scenario_def scenario_hash_def MockLedger_def create_account_def transfer_def
          lock_funds_def return_locked_funds_def get_balance_def lock_id_of_def str_int_def
          py_int_def str_nat.simps Let_def)
  have made: "created scenario_hash MockLedger scenario = 200"
    by (simp add: scenario_def scenario_hash_def MockLedger_def create_account_def transfer_def
          lock_funds_def return_locked_funds_def get_balance_def lock_id_of_def str_int_def
          py_int_def str_nat.simps Let_def)
  from total_supply_conserved [OF owners_ok_MockLedger fresh] owners_ok_MockLedger fresh made
  show ?thesis by blast
qed

text \<open>
  C2: \<^verbatim>\<open>transfer\<close> is to succeed exactly when the sender's free balance is at least the
  amount. For a sender without an account the free balance is 0 (the guard reads it with
  \<^verbatim>\<open>.get(sender, 0)\<close>), so a transfer of 0 is to succeed, return true and append a
  Transaction; the code raises KeyError at the debit and returns nothing.
\<close>

theorem transfer_unknown_sender_raises:
  "transfer scenario_hash 1000.5 (create_account MockLedger ''B'' 100) ''ghost'' ''B'' 0 None
     = (Inl KeyError, create_account MockLedger ''B'' 100)"
  by (simp add: transfer_unknown_sender create_account_def MockLedger_def)

text \<open>
  C3, as the claim states it (any argument values), fails: no method checks the sign of an
  amount. From A = 100 and B = 100, \<^verbatim>\<open>transfer(A, B, -150)\<close> passes the guard and leaves B
  with -50.
\<close>

theorem negative_transfer_negative_balance:
  "get_balance
     (run scenario_hash MockLedger
        [Create_account ''A'' 100, Create_account ''B'' 100,
         Transfer 1000.5 ''A'' ''B'' (- 150) None]) ''B'' = - 50"
  by (simp add: MockLedger_def create_account_def transfer_def get_balance_def Let_def)

text \<open>
  C3 (amended). From any ledger whose balances and escrowed amounts are not negative (the
  empty ledger is one), after any sequence of \<^verbatim>\<open>create_account\<close>, \<^verbatim>\<open>transfer\<close>,
  \<^verbatim>\<open>lock_funds\<close>, \<^verbatim>\<open>release_funds\<close> and \<^verbatim>\<open>return_locked_funds\<close> calls whose initial
  balances and amounts are not negative, every account balance is greater than or equal
  to 0.
\<close>

theorem balances_never_negative:
  "balances_nonneg s \<Longrightarrow> locks_nonneg s \<Longrightarrow> \<forall>c\<in>set cs. nonneg_args c \<Longrightarrow>
   0 \<le> get_balance (run h s cs) a"
  using nonneg_run [of s cs h] balances_nonneg_get_balance by blast

theorem balances_never_negative_witness:
  "balances_nonneg MockLedger \<and> locks_nonneg MockLedger \<and> list_all nonneg_args scenario
   \<and> 0 \<le> get_balance (run scenario_hash MockLedger scenario) ''A''"
proof -
  have b: "balances_nonneg MockLedger" by (simp add: balances_nonneg_def MockLedger_def)
  have l: "locks_nonneg MockLedger" by (simp add: locks_nonneg_def MockLedger_def)
  have n: "\<forall>c\<in>set scenario. nonneg_args c" by (simp add: scenario_def)
  from balances_never_negative [OF b l n] b l n show ?thesis by (simp add: list_all_iff)
qed

text \<open>
  Single settlement up to id reuse. Once \<^verbatim>\<open>release_funds\<close> or \<^verbatim>\<open>return_locked_funds\<close> has
  been called on a lock id, and whatever calls follow as long as no \<^verbatim>\<open>lock_funds\<close> writes a
  lock under that same id again, \<^verbatim>\<open>release_funds\<close> and \<^verbatim>\<open>return_locked_funds\<close> on that id
  return false and leave the whole ledger (balances, escrow table, history) as it is. The
  proviso cannot be dropped, as the evaluation at the end of this section shows.
\<close>

theorem settled_lock_stays_settled:
  "s1 = snd (release_funds s l a) \<or> s1 = snd (return_locked_funds s l) \<Longrightarrow>
   \<forall>c\<in>set cs. mints_other h l c \<Longrightarrow>
   release_funds (run h s1 cs) l b = (Inr False, run h s1 cs)
   \<and> return_locked_funds (run h s1 cs) l = (Inr False, run h s1 cs)"
proof -
  assume "s1 = snd (release_funds s l a) \<or> s1 = snd (return_locked_funds s l)"
  then have "fmlookup (locked_funds s1) l = None"
    using release_funds_removes return_locked_funds_removes by auto
  moreover assume "\<forall>c\<in>set cs. mints_other h l c"
  ultimately have "fmlookup (locked_funds (run h s1 cs)) l = None"
    by (rule inactive_run)
  then show ?thesis
    by (simp add: release_funds_unknown return_locked_funds_unknown)
qed

text \<open>
  In the scenario of section 8 the lock of 30 is returned (the call returns true); after
  one more transfer, releasing or returning it again is refused and changes nothing.
\<close>

theorem settled_lock_stays_settled_witness:
  "fst (return_locked_funds (run scenario_hash MockLedger (butlast scenario)) ''lock_1000_4242'')
     = Inr True
   \<and> list_all (mints_other scenario_hash ''lock_1000_4242'') [Transfer 1000.5 ''B'' ''A'' 10 None]
   \<and> release_funds
        (run scenario_hash
           (snd (return_locked_funds (run scenario_hash MockLedger (butlast scenario))
                   ''lock_1000_4242''))
           [Transfer 1000.5 ''B'' ''A'' 10 None]) ''lock_1000_4242'' ''B''
       = (Inr False,
          run scenario_hash
            (snd (return_locked_funds (run scenario_hash MockLedger (butlast scenario))
                    ''lock_1000_4242''))
            [Transfer 1000.5 ''B'' ''A'' 10 None])
   \<and> return_locked_funds
        (run scenario_hash
           (snd (return_locked_funds (run scenario_hash MockLedger (butlast scenario))
                   ''lock_1000_4242''))
           [Transfer 1000.5 ''B'' ''A'' 10 None]) ''lock_1000_4242''
       = (Inr False,
          run scenario_hash
            (snd (return_locked_funds (run scenario_hash MockLedger (butlast scenario))
                    ''lock_1000_4242''))
            [Transfer 1000.5 ''B'' ''A'' 10 None])"
proof -
  have settled:
    "fst (return_locked_funds (run scenario_hash MockLedger (butlast scenario)) ''lock_1000_4242'')
       = Inr True"
    by (simp add: scenario_def scenario_hash_def MockLedger_def create_account_def transfer_def
          lock_funds_def return_locked_funds_def get_balance_def lock_id_of_def str_int_def
          py_int_def str_nat.simps Let_def)
  have other:
    "\<forall>c\<in>set [Transfer 1000.5 ''B'' ''A'' 10 None]. mints_other scenario_hash ''lock_1000_4242'' c"
    by simp
  have "snd (return_locked_funds (run scenario_hash MockLedger (butlast scenario)) ''lock_1000_4242'')
          = snd (release_funds (run scenario_hash MockLedger (butlast scenario)) ''lock_1000_4242'' ''B'')
        \<or> snd (return_locked_funds (run scenario_hash MockLedger (butlast scenario)) ''lock_1000_4242'')
          = snd (return_locked_funds (run scenario_hash MockLedger (butlast scenario)) ''lock_1000_4242'')"
    by simp
  from settled_lock_stays_settled [OF this other, of "''B''"] settled
  show ?thesis by simp
qed

text \<open>
  C4. A lock id that has been settled once (by \<^verbatim>\<open>release_funds\<close> or by
  \<^verbatim>\<open>return_locked_funds\<close>) is meant to refuse every later \<^verbatim>\<open>release_funds\<close> and
  \<^verbatim>\<open>return_locked_funds\<close>, leaving balances and escrow table unchanged. The code does not
  achieve this. \<^verbatim>\<open>lock_funds\<close> builds the id from the clock truncated to whole seconds and
  the purpose's hash modulo 10000, so a second lock taken in the same second for the same
  purpose gets the id of the first. In the scenario of section 8 the lock
  \<^verbatim>\<open>lock_1000_4242\<close> of 30 is returned to A (the call returns true: the id is settled, A has 50
  and B has 150). A then locks 30 for \<^verbatim>\<open>escrow\<close> again at clock 1000.75: the new lock is
  written under the settled id. \<^verbatim>\<open>release_funds\<close> on the settled id now returns true, empties
  the escrow table and moves the 30 to B (180), where single settlement requires false and
  no change.
\<close>

theorem settled_lock_released_again:
  "fst (return_locked_funds (run scenario_hash MockLedger (butlast scenario)) ''lock_1000_4242'')
     = Inr True
   \<and> fmlookup (locked_funds (run scenario_hash MockLedger scenario)) ''lock_1000_4242'' = None
   \<and> get_balance (run scenario_hash MockLedger scenario) ''A'' = 50
   \<and> fst (lock_funds scenario_hash 1000.75 1000.75 (run scenario_hash MockLedger scenario)
             ''A'' 30 ''escrow'')
       = Inr (Some ''lock_1000_4242'')
   \<and> get_balance
         (run scenario_hash MockLedger (scenario @ [Lock_funds 1000.75 1000.75 ''A'' 30 ''escrow'']))
         ''B'' = 150
   \<and> fst (release_funds
              (run scenario_hash MockLedger
                 (scenario @ [Lock_funds 1000.75 1000.75 ''A'' 30 ''escrow'']))
              ''lock_1000_4242'' ''B'')
       = Inr True
   \<and> get_balance
         (snd (release_funds
                 (run scenario_hash MockLedger
                    (scenario @ [Lock_funds 1000.75 1000.75 ''A'' 30 ''escrow'']))
                 ''lock_1000_4242'' ''B''))
         ''B'' = 180
   \<and> get_balance
         (snd (release_funds
                 (run scenario_hash MockLedger
                    (scenario @ [Lock_funds 1000.75 1000.75 ''A'' 30 ''escrow'']))
                 ''lock_1000_4242'' ''B''))
         ''A'' = 20
   \<and> locked_funds
         (snd (release_funds
                 (run scenario_hash MockLedger
                    (scenario @ [Lock_funds 1000.75 1000.75 ''A'' 30 ''escrow'']))
                 ''lock_1000_4242'' ''B''))
       = fmempty"
  by (simp add: scenario_def scenario_hash_def MockLedger_def create_account_def transfer_def
        lock_funds_def release_funds_def return_locked_funds_def get_balance_def lock_id_of_def
        str_int_def py_int_def str_nat.simps Let_def fmdrop_fmupd_same)

section \<open>Negotiator: the claims\<close>

text \<open>
  C5. For a market price of at least 1 (and a table whose rows hold the four actions, as
  every table the code builds does), \<^verbatim>\<open>negotiate\<close> returns, whatever the random
  generator yields: it makes at most \<open>max_rounds\<close> decisions, and its result is either
  ("accept", price), the price being the initial offer as the counter actions taken
  transformed it, or ("reject", 0). If all its decisions were counters, it made exactly
  \<open>max_rounds\<close> of them and the result is the forced ("accept", current offer).
\<close>

theorem negotiate_bounded:
  assumes "1 \<le> market_price" "q_ok n"
  shows "length (snd (snd (negotiate rnd n service_type offer market_price agent_reputation
                             max_rounds))) \<le> nat max_rounds
         \<and> (fst (negotiate rnd n service_type offer market_price agent_reputation max_rounds)
              = Inr (''accept'',
                     foldl apply_action offer
                       (map snd (snd (snd (negotiate rnd n service_type offer market_price
                                             agent_reputation max_rounds)))))
            \<or> fst (negotiate rnd n service_type offer market_price agent_reputation max_rounds)
              = Inr (''reject'', 0))
         \<and> (list_all is_counter
               (snd (snd (negotiate rnd n service_type offer market_price agent_reputation
                            max_rounds)))
            \<longrightarrow> length (snd (snd (negotiate rnd n service_type offer market_price
                                      agent_reputation max_rounds))) = nat max_rounds
                \<and> fst (negotiate rnd n service_type offer market_price agent_reputation
                         max_rounds)
                  = Inr (''accept'',
                         foldl apply_action offer
                           (map snd (snd (snd (negotiate rnd n service_type offer market_price
                                                 agent_reputation max_rounds))))))"
proof -
  from assms(1) have "market_price \<noteq> 0" by simp
  from negotiate_result [OF this assms(2), of rnd service_type offer agent_reputation max_rounds]
  obtain res n' dps where
    "negotiate rnd n service_type offer market_price agent_reputation max_rounds
       = (Inr res, n', dps)"
    "length dps \<le> nat max_rounds"
    "res = (''accept'', foldl apply_action offer (map snd dps)) \<or> res = (''reject'', 0)"
    "list_all is_counter dps \<longrightarrow>
       length dps = nat max_rounds \<and> res = (''accept'', foldl apply_action offer (map snd dps))"
    by blast
  then show ?thesis by auto
qed

text \<open>
  A fresh negotiator, an offer of 100 against a market price of 100, three rounds, and a
  random generator that makes every round explore and pick counter_low: three decisions,
  all counters, and the forced accept at 51 (100, 80, 64, 51).
\<close>

lemma fresh_negotiator_ok: "q_ok fresh_negotiator"
  by (simp add: q_ok_def fresh_negotiator_def RLNegotiator_def)

lemma all_counters_run:
  "snd (snd (negotiate explore_counter_low fresh_negotiator ''svc'' 100 100 5 3))
     = [(''svc_fair_high_low'', ''counter_low''), (''svc_fair_high_medium'', ''counter_low''),
        (''svc_low_high_medium'', ''counter_low'')]"
  by (simp add: negotiate_def negotiate_loop.simps py_range_def fresh_negotiator_def
        RLNegotiator_def explore_counter_low_def get_state_def get_action_def random_choice_def
        update_q_value_def calculate_reward_def truthy_def decided_def upt_rec
        py_int_def Let_def zero_row_def actions_def)

theorem negotiate_bounded_witness:
  "(1::int) \<le> 100 \<and> q_ok fresh_negotiator
   \<and> list_all is_counter
       (snd (snd (negotiate explore_counter_low fresh_negotiator ''svc'' 100 100 5 3)))
   \<and> length (snd (snd (negotiate explore_counter_low fresh_negotiator ''svc'' 100 100 5 3)))
       = nat 3
   \<and> fst (negotiate explore_counter_low fresh_negotiator ''svc'' 100 100 5 3)
       = Inr (''accept'', 51)"
proof -
  have m: "(1::int) \<le> 100" by simp
  have cs: "list_all is_counter
       (snd (snd (negotiate explore_counter_low fresh_negotiator ''svc'' 100 100 5 3)))"
    by (simp add: all_counters_run is_counter_def)
  have price: "foldl apply_action 100
       (map snd (snd (snd (negotiate explore_counter_low fresh_negotiator ''svc'' 100 100 5 3))))
       = 51"
    by (simp add: all_counters_run apply_action_def py_int_def)
  from negotiate_bounded [OF m fresh_negotiator_ok, of explore_counter_low "''svc''" 100 5 3]
    cs price m fresh_negotiator_ok
  show ?thesis by simp
qed

text \<open>
  C6, as the claim states it, fails at the lower boundary: the code compares with
  \<^verbatim>\<open>price_ratio > 0.8\<close>, so a deal at a ratio of exactly 0.8 (price 4 against market
  price 5) is rewarded -0.5, not 0.
\<close>

theorem ratio_four_fifths_reward: "calculate_reward 4 5 True = Inr (- 0.5)"
  by (simp add: calculate_reward_def)

text \<open>
  C6 (amended). For a market price above 0, the terminal reward is -1 when no deal is
  made, and for a deal at price p against market price m: 1 when p/m > 1.2; 0.5 when
  1 < p/m \<le> 1.2; 0 when 0.8 < p/m \<le> 1; -0.5 when p/m \<le> 0.8. A ratio of exactly 1.2
  (5p = 6m) yields 0.5 and a ratio of exactly 0.8 (5p = 4m) yields -0.5.
\<close>

theorem calculate_reward_buckets:
  assumes "0 < m"
  shows "calculate_reward p m False = Inr (- 1)
         \<and> (real_of_int p / real_of_int m > 1.2 \<longrightarrow> calculate_reward p m True = Inr 1)
         \<and> (1 < real_of_int p / real_of_int m \<and> real_of_int p / real_of_int m \<le> 1.2
              \<longrightarrow> calculate_reward p m True = Inr 0.5)
         \<and> (0.8 < real_of_int p / real_of_int m \<and> real_of_int p / real_of_int m \<le> 1
              \<longrightarrow> calculate_reward p m True = Inr 0)
         \<and> (real_of_int p / real_of_int m \<le> 0.8 \<longrightarrow> calculate_reward p m True = Inr (- 0.5))
         \<and> (5 * p = 6 * m \<longrightarrow> calculate_reward p m True = Inr 0.5)
         \<and> (5 * p = 4 * m \<longrightarrow> calculate_reward p m True = Inr (- 0.5))"
proof -
  define r where "r = real_of_int p / real_of_int m"
  from assms have m0: "m \<noteq> 0" and mr: "0 < real_of_int m" by simp_all
  have cr: "calculate_reward p m True =
              (if r > 1.2 then Inr 1 else if r > 1 then Inr 0.5
               else if r > 0.8 then Inr 0 else Inr (- 0.5))"
    using m0 by (simp add: calculate_reward_def Let_def r_def)
  have six: "r = 1.2" if "5 * p = 6 * m"
  proof -
    from that have "real_of_int (5 * p) = real_of_int (6 * m)" by simp
    then have "5 * real_of_int p = 6 * real_of_int m" by simp
    with mr show ?thesis by (simp add: r_def field_simps)
  qed
  have four: "r = 0.8" if "5 * p = 4 * m"
  proof -
    from that have "real_of_int (5 * p) = real_of_int (4 * m)" by simp
    then have "5 * real_of_int p = 4 * real_of_int m" by simp
    with mr show ?thesis by (simp add: r_def field_simps)
  qed
  have a: "calculate_reward p m False = Inr (- 1)"
    by (simp add: calculate_reward_def)
  have b: "r > 1.2 \<longrightarrow> calculate_reward p m True = Inr 1"
    by (simp add: cr)
  have c: "1 < r \<and> r \<le> 1.2 \<longrightarrow> calculate_reward p m True = Inr 0.5"
    by (simp add: cr)
  have d: "0.8 < r \<and> r \<le> 1 \<longrightarrow> calculate_reward p m True = Inr 0"
    by (simp add: cr)
  have e: "r \<le> 0.8 \<longrightarrow> calculate_reward p m True = Inr (- 0.5)"
    by (simp add: cr)
  have f: "5 * p = 6 * m \<longrightarrow> calculate_reward p m True = Inr 0.5"
  proof
    assume "5 * p = 6 * m"
    from six [OF this] show "calculate_reward p m True = Inr 0.5" by (simp add: cr)
  qed
  have g: "5 * p = 4 * m \<longrightarrow> calculate_reward p m True = Inr (- 0.5)"
  proof
    assume "5 * p = 4 * m"
    from four [OF this] show "calculate_reward p m True = Inr (- 0.5)" by (simp add: cr)
  qed
  from a b c d e f g show ?thesis unfolding r_def by blast
qed

text \<open>Market price 5: prices 7, 6, 5, 4 and 3 give 1, 0.5, 0, -0.5 and -0.5.\<close>

theorem calculate_reward_buckets_witness:
  "(0::int) < 5
   \<and> calculate_reward 6 5 False = Inr (- 1)
   \<and> calculate_reward 7 5 True = Inr 1
   \<and> calculate_reward 6 5 True = Inr 0.5
   \<and> calculate_reward 5 5 True = Inr 0
   \<and> calculate_reward 4 5 True = Inr (- 0.5)
   \<and> calculate_reward 3 5 True = Inr (- 0.5)"
proof -
  have m: "(0::int) < 5" by simp
  from calculate_reward_buckets [OF m, of 6] calculate_reward_buckets [OF m, of 7]
    calculate_reward_buckets [OF m, of 5] calculate_reward_buckets [OF m, of 4]
    calculate_reward_buckets [OF m, of 3]
  show ?thesis by simp
qed

text \<open>
  C7. The claim asks that the update after a counter action use the next round's state:
  Q(s,a) + alpha * (r + gamma * max Q(s',.) - Q(s,a)). \<^verbatim>\<open>negotiate\<close> calls
  \<^verbatim>\<open>update_q_value(state, action, reward)\<close> without a next state in every branch, so the
  term max Q(s',.) is 0 after a counter action too. On the primed negotiator (both
  entries at 0.1), an offer of 100 against a market price of 100 and no exploration, round
  0 decides counter_low in state svc_fair_high_low and round 1 accepts in state
  svc_fair_high_medium, whose best value was 0.1. The code leaves
  Q(svc_fair_high_low, counter_low) at 0.1 + 0.1 * (-0.1 + 0.9 * 0 - 0.1) = 0.08; the
  update of the claim gives 0.1 + 0.1 * (-0.1 + 0.9 * 0.1 - 0.1) = 0.089.
\<close>

theorem counter_update_drops_next_state:
  "q_value primed_negotiator ''svc_fair_high_low'' ''counter_low'' = 0.1
   \<and> map_option max_value (fmlookup (q_table primed_negotiator) ''svc_fair_high_medium'')
       = Some (Inr 0.1)
   \<and> snd (snd (negotiate never_explore primed_negotiator ''svc'' 100 100 5 3))
       = [(''svc_fair_high_low'', ''counter_low''), (''svc_fair_high_medium'', ''accept'')]
   \<and> q_value (fst (snd (negotiate never_explore primed_negotiator ''svc'' 100 100 5 3)))
       ''svc_fair_high_low'' ''counter_low'' = 0.08
   \<and> q_learning_update 0.1 0.9 0.1 (- 0.1) 0.1 = 0.089"
  by (simp add: negotiate_def negotiate_loop.simps py_range_def primed_negotiator_def
        fresh_negotiator_def RLNegotiator_def never_explore_def get_state_def get_action_def
        update_q_value_def calculate_reward_def truthy_def decided_def upt_rec max_key_def
        max_value_def q_value_def q_learning_update_def py_int_def Let_def zero_row_def
        actions_def)

text \<open>
  C10. The state derivation guards its division with \<^verbatim>\<open>max(market_price, 1)\<close>, so a
  market price of 0 is read there as 1; the reward computation divides by the market price
  itself. For every call with a market price of at least 1 (on a table whose rows hold the
  four actions) \<^verbatim>\<open>negotiate\<close> returns a result and raises nothing, in particular no
  ZeroDivisionError. With a market price of 0 the reward of any deal is undefined
  (ZeroDivisionError), so \<^verbatim>\<open>negotiate\<close> never returns an accept: it raises
  ZeroDivisionError unless it returns the reject.
\<close>

theorem negotiate_division_by_zero:
  "(1 \<le> market_price \<and> q_ok n \<longrightarrow>
      (\<exists>res. fst (negotiate rnd n service_type offer market_price agent_reputation max_rounds)
               = Inr res))
   \<and> get_state service_type offer 0 agent_reputation urgency
       = get_state service_type offer 1 agent_reputation urgency
   \<and> calculate_reward final_price 0 True = Inl ZeroDivisionError
   \<and> (q_ok n \<longrightarrow>
        fst (negotiate rnd n service_type offer 0 agent_reputation max_rounds)
          = Inl ZeroDivisionError
        \<or> fst (negotiate rnd n service_type offer 0 agent_reputation max_rounds)
          = Inr (''reject'', 0))"
proof -
  have total: "\<exists>res. fst (negotiate rnd n service_type offer market_price agent_reputation
                            max_rounds) = Inr res"
    if "1 \<le> market_price" "q_ok n"
  proof -
    from that(1) have "market_price \<noteq> 0" by simp
    from negotiate_result [OF this that(2), of rnd service_type offer agent_reputation
        max_rounds]
    show ?thesis by auto
  qed
  have guard: "get_state service_type offer 0 agent_reputation urgency
                 = get_state service_type offer 1 agent_reputation urgency"
    by (simp add: get_state_def)
  have undefined_reward: "calculate_reward final_price 0 True = Inl ZeroDivisionError"
    by (simp add: calculate_reward_def)
  from total guard undefined_reward negotiate_zero_market show ?thesis by blast
qed

text \<open>
  A fresh negotiator that never explores accepts in round 0: at a market price of 100 the
  call returns, at a market price of 0 it raises ZeroDivisionError.
\<close>

lemma zero_market_run:
  "fst (negotiate never_explore fresh_negotiator ''svc'' 100 0 5 3) = Inl ZeroDivisionError"
  by (simp add: negotiate_def negotiate_loop.simps py_range_def fresh_negotiator_def
        RLNegotiator_def never_explore_def get_state_def get_action_def
        update_q_value_def calculate_reward_def truthy_def decided_def upt_rec max_key_def
        py_int_def Let_def zero_row_def actions_def)

theorem negotiate_division_by_zero_witness:
  "(1::int) \<le> 100 \<and> q_ok fresh_negotiator
   \<and> (\<exists>res. fst (negotiate never_explore fresh_negotiator ''svc'' 100 100 5 3) = Inr res)
   \<and> calculate_reward 100 0 True = Inl ZeroDivisionError
   \<and> fst (negotiate never_explore fresh_negotiator ''svc'' 100 0 5 3) = Inl ZeroDivisionError"
proof -
  have m: "(1::int) \<le> 100" by simp
  from negotiate_division_by_zero
    [of 100 fresh_negotiator never_explore "''svc''" 100 5 3 0 100]
    m fresh_negotiator_ok zero_market_run
  show ?thesis by blast
qed

section \<open>Bandit: the claims\<close>

text \<open>
  C8. A bandit built over N distinct agents, selecting with UCB and calling
  \<^verbatim>\<open>update_reward\<close> for the selected agent after each selection: whatever the rewards,
  the exploration constant and the random pick of the very first call, the first N
  selections all return, and they are the N agents, each exactly once. And in every state
  of such a bandit that still has an agent with selection count 0, UCB selects an agent
  with selection count 0: untried agents are preferred over tried ones.
\<close>

theorem ucb_first_selections:
  "(distinct ags \<and> length rounds = length ags \<longrightarrow>
      (\<exists>selected. fst (ucb_rounds (MultiArmedBandit ags ic) c rounds) = Inr selected
                  \<and> length selected = length ags \<and> distinct selected
                  \<and> set selected = set ags))
   \<and> (ucb_ok b \<and> untried b \<noteq> [] \<longrightarrow>
        (\<exists>agent. select_ucb1 b c pick = Inr agent \<and> agent \<in> set (untried b)))"
proof -
  have first: "\<exists>selected. fst (ucb_rounds (MultiArmedBandit ags ic) c rounds) = Inr selected
                  \<and> length selected = length ags \<and> distinct selected
                  \<and> set selected = set ags"
    if d: "distinct ags" and l: "length rounds = length ags"
  proof -
    have "distinct (agents (MultiArmedBandit ags ic))"
      using d by (simp add: MultiArmedBandit_def)
    moreover have "length rounds = length (untried (MultiArmedBandit ags ic))"
      using l by (simp add: MultiArmedBandit_untried)
    ultimately obtain selected b' where
      run: "ucb_rounds (MultiArmedBandit ags ic) c rounds = (Inr selected, b')"
      and ds: "distinct selected" and ss: "set selected = set ags"
      using ucb_rounds_untried [OF MultiArmedBandit_ok, of ags ic rounds c]
      by (auto simp add: MultiArmedBandit_untried)
    from ds ss d have "length selected = length ags"
      by (metis distinct_card)
    with run ds ss show ?thesis by auto
  qed
  from first select_ucb1_untried show ?thesis by blast
qed

text \<open>
  The three agents of the source's global bandit, the first random pick being the second
  of them: the selections are Translator_B, DataProcessor_A, Computer_C. After the first
  of these rounds the untried agents are DataProcessor_A and Computer_C, and UCB selects
  one of them.
\<close>

lemma after_first_round:
  "ucb_ok (snd (update_reward (MultiArmedBandit three_agents 1) ''Translator_B'' 0.9))
   \<and> untried (snd (update_reward (MultiArmedBandit three_agents 1) ''Translator_B'' 0.9))
       = [''DataProcessor_A'', ''Computer_C'']"
  by (simp add: ucb_ok_def arm_ok_def untried_def update_reward_def MultiArmedBandit_def
        three_agents_def)

theorem ucb_first_selections_witness:
  "distinct three_agents \<and> length three_rounds = length three_agents
   \<and> (\<exists>selected. fst (ucb_rounds (MultiArmedBandit three_agents 1) 2 three_rounds) = Inr selected
                 \<and> length selected = length three_agents \<and> distinct selected
                 \<and> set selected = set three_agents)
   \<and> ucb_ok (snd (update_reward (MultiArmedBandit three_agents 1) ''Translator_B'' 0.9))
   \<and> untried (snd (update_reward (MultiArmedBandit three_agents 1) ''Translator_B'' 0.9))
       = [''DataProcessor_A'', ''Computer_C'']
   \<and> (\<exists>agent. select_ucb1
                 (snd (update_reward (MultiArmedBandit three_agents 1) ''Translator_B'' 0.9))
                 2 0 = Inr agent
              \<and> agent \<in> set (untried
                   (snd (update_reward (MultiArmedBandit three_agents 1) ''Translator_B'' 0.9))))"
proof -
  have d: "distinct three_agents" by (simp add: three_agents_def)
  have l: "length three_rounds = length three_agents"
    by (simp add: three_agents_def three_rounds_def)
  have ne: "untried (snd (update_reward (MultiArmedBandit three_agents 1) ''Translator_B'' 0.9))
              \<noteq> []"
    using after_first_round by simp
  from ucb_first_selections
    [of three_agents three_rounds 1 2
        "snd (update_reward (MultiArmedBandit three_agents 1) ''Translator_B'' 0.9)" 0]
    d l ne after_first_round
  show ?thesis by blast
qed

text \<open>
  C9, as the claim states it, fails for the two bandits: they create their entries in the
  constructor and nowhere else, and \<^verbatim>\<open>update_reward\<close> and \<^verbatim>\<open>update_weights\<close> subscript
  their dicts with the agent. For an agent the bandit was not built with, both raise
  KeyError.
\<close>

theorem bandit_updates_raise_on_new_arm:
  "update_reward (MultiArmedBandit three_agents 1) ''Newcomer_D'' 0.5
     = (Inl KeyError, MultiArmedBandit three_agents 1)
   \<and> update_weights 1000.5 (ContextualBandit (\<lambda>agent i. 0) three_agents 4) ''Newcomer_D''
       [0.3, 0.5, 1, 0.5] 0.5 0.01
     = (Inl KeyError, ContextualBandit (\<lambda>agent i. 0) three_agents 4)"
  by (simp add: update_reward_def update_weights_def predict_reward_def MultiArmedBandit_def
        ContextualBandit_def three_agents_def)

text \<open>
  C9 (amended). \<^verbatim>\<open>RLNegotiator.update_q_value\<close>, called with one of the four actions on
  a table whose rows hold the four actions, never raises, whether the state and the next
  state have been seen or not: it creates the missing rows, and the state has a row
  afterwards. \<^verbatim>\<open>MultiArmedBandit.update_reward\<close> and \<^verbatim>\<open>ContextualBandit.update_weights\<close>
  do not initialise anything lazily: for an agent the bandit holds entries for (every
  agent of the constructor's list; for \<^verbatim>\<open>update_weights\<close> with a context of the bandit's
  dimension) they return without raising, and for an agent without an entry they raise
  KeyError and leave the bandit as it was.
\<close>

theorem learning_updates_on_unseen_keys:
  "(q_ok n \<and> action \<in> set actions \<longrightarrow>
      (\<exists>n'. update_q_value n state action reward next_state = (Inr (), n')
            \<and> fmlookup (q_table n') state \<noteq> None))
   \<and> (ucb_ok b \<and> agent \<in> set (agents b) \<longrightarrow> fst (update_reward b agent reward) = Inr ())
   \<and> (fmlookup (rewards b) agent = None \<longrightarrow>
        update_reward b agent reward = (Inl KeyError, b))
   \<and> (cb_ok cb \<and> agent \<in> set (cb_agents cb) \<and> length ctx = context_dim cb \<longrightarrow>
        fst (update_weights now cb agent ctx reward lr) = Inr ())
   \<and> (fmlookup (weights cb) agent = None \<longrightarrow>
        update_weights now cb agent ctx reward lr = (Inl KeyError, cb))"
proof -
  have q: "\<exists>n'. update_q_value n state action reward next_state = (Inr (), n')
                \<and> fmlookup (q_table n') state \<noteq> None"
    if "q_ok n" "action \<in> set actions"
    using update_q_value_any [OF that] by blast
  have r: "fst (update_reward b agent reward) = Inr ()"
    if "ucb_ok b" "agent \<in> set (agents b)"
    using update_reward_known [OF that, of reward] by auto
  have w: "fst (update_weights now cb agent ctx reward lr) = Inr ()"
    if "cb_ok cb" "agent \<in> set (cb_agents cb)" "length ctx = context_dim cb"
    using update_weights_known [OF that, of now reward lr] by auto
  from q r w update_reward_unknown update_weights_unknown show ?thesis by blast
qed

text \<open>
  A fresh negotiator updated at a state it has never seen; the three-agent bandits updated
  for Translator_B, and for an agent they were not built with.
\<close>

lemma three_agent_bandits:
  "cb_ok (ContextualBandit (\<lambda>agent i. 0) three_agents 4)
   \<and> ''Translator_B'' \<in> set (cb_agents (ContextualBandit (\<lambda>agent i. 0) three_agents 4))
   \<and> length [0.3, 0.5, 1, 0.5 :: real] = context_dim (ContextualBandit (\<lambda>agent i. 0) three_agents 4)
   \<and> ''Translator_B'' \<in> set (agents (MultiArmedBandit three_agents 1))
   \<and> fmlookup (rewards (MultiArmedBandit three_agents 1)) ''Newcomer_D'' = None
   \<and> fmlookup (weights (ContextualBandit (\<lambda>agent i. 0) three_agents 4)) ''Newcomer_D'' = None
   \<and> ''accept'' \<in> set actions
   \<and> fmlookup (q_table fresh_negotiator) ''svc_fair_high_low'' = None"
  by (simp add: cb_ok_def ContextualBandit_def MultiArmedBandit_def three_agents_def
        actions_def fresh_negotiator_def RLNegotiator_def)

theorem learning_updates_on_unseen_keys_witness:
  "q_ok fresh_negotiator \<and> ''accept'' \<in> set actions
   \<and> fmlookup (q_table fresh_negotiator) ''svc_fair_high_low'' = None
   \<and> (\<exists>n'. update_q_value fresh_negotiator ''svc_fair_high_low'' ''accept'' 0.5 None
              = (Inr (), n')
           \<and> fmlookup (q_table n') ''svc_fair_high_low'' \<noteq> None)
   \<and> ucb_ok (MultiArmedBandit three_agents 1)
   \<and> fst (update_reward (MultiArmedBandit three_agents 1) ''Translator_B'' 0.5) = Inr ()
   \<and> update_reward (MultiArmedBandit three_agents 1) ''Newcomer_D'' 0.5
       = (Inl KeyError, MultiArmedBandit three_agents 1)
   \<and> cb_ok (ContextualBandit (\<lambda>agent i. 0) three_agents 4)
   \<and> fst (update_weights 1000.5 (ContextualBandit (\<lambda>agent i. 0) three_agents 4)
            ''Translator_B'' [0.3, 0.5, 1, 0.5] 0.5 0.01) = Inr ()
   \<and> update_weights 1000.5 (ContextualBandit (\<lambda>agent i. 0) three_agents 4) ''Newcomer_D''
       [0.3, 0.5, 1, 0.5] 0.5 0.01
       = (Inl KeyError, ContextualBandit (\<lambda>agent i. 0) three_agents 4)"
proof -
  note known = learning_updates_on_unseen_keys
    [where n = fresh_negotiator and action = "''accept''" and state = "''svc_fair_high_low''"
       and reward = "0.5" and next_state = None and b = "MultiArmedBandit three_agents 1"
       and agent = "''Translator_B''"
       and cb = "ContextualBandit (\<lambda>agent i. 0) three_agents 4"
       and ctx = "[0.3, 0.5, 1, 0.5]" and now = "1000.5" and lr = "0.01"]
  note unknown = learning_updates_on_unseen_keys
    [where n = fresh_negotiator and action = "''accept''" and state = "''svc_fair_high_low''"
       and reward = "0.5" and next_state = None and b = "MultiArmedBandit three_agents 1"
       and agent = "''Newcomer_D''"
       and cb = "ContextualBandit (\<lambda>agent i. 0) three_agents 4"
       and ctx = "[0.3, 0.5, 1, 0.5]" and now = "1000.5" and lr = "0.01"]
  note facts = three_agent_bandits
  have h1: "q_ok fresh_negotiator" by (rule fresh_negotiator_ok)
  have h2: "''accept'' \<in> set actions" using facts by (elim conjE)
  have h3: "fmlookup (q_table fresh_negotiator) ''svc_fair_high_low'' = None"
    using facts by (elim conjE)
  have h4: "ucb_ok (MultiArmedBandit three_agents 1)" by (rule MultiArmedBandit_ok)
  have h5: "cb_ok (ContextualBandit (\<lambda>agent i. 0) three_agents 4)"
    using facts by (elim conjE)
  have c1: "\<exists>n'. update_q_value fresh_negotiator ''svc_fair_high_low'' ''accept'' 0.5 None
              = (Inr (), n')
           \<and> fmlookup (q_table n') ''svc_fair_high_low'' \<noteq> None"
    by (rule known [THEN conjunct1, THEN mp]) (intro conjI h1 h2)
  have c2: "fst (update_reward (MultiArmedBandit three_agents 1) ''Translator_B'' 0.5) = Inr ()"
    by (rule known [THEN conjunct2, THEN conjunct1, THEN mp])
       (use facts h4 in \<open>elim conjE, intro conjI\<close>)
  have c3: "update_reward (MultiArmedBandit three_agents 1) ''Newcomer_D'' 0.5
       = (Inl KeyError, MultiArmedBandit three_agents 1)"
    by (rule unknown [THEN conjunct2, THEN conjunct2, THEN conjunct1, THEN mp])
       (use facts in \<open>elim conjE\<close>)
  have c4: "fst (update_weights 1000.5 (ContextualBandit (\<lambda>agent i. 0) three_agents 4)
            ''Translator_B'' [0.3, 0.5, 1, 0.5] 0.5 0.01) = Inr ()"
    by (rule known [THEN conjunct2, THEN conjunct2, THEN conjunct2, THEN conjunct1, THEN mp])
       (use facts in \<open>elim conjE, intro conjI\<close>)
  have c5: "update_weights 1000.5 (ContextualBandit (\<lambda>agent i. 0) three_agents 4) ''Newcomer_D''
       [0.3, 0.5, 1, 0.5] 0.5 0.01
       = (Inl KeyError, ContextualBandit (\<lambda>agent i. 0) three_agents 4)"
    by (rule unknown [THEN conjunct2, THEN conjunct2, THEN conjunct2, THEN conjunct2, THEN mp])
       (use facts in \<open>elim conjE\<close>)
  from h1 h2 h3 c1 h4 c2 c3 h5 c4 c5 show ?thesis by (intro conjI)
qed

end
